theory Spec2Isabelle
  imports Complex_Main "HOL-Library.AList" "HOL-Library.Sublist"
begin

section \<open>Verification reporters of rally: the data\<close>

text \<open>
  The module \<^verbatim>\<open>rally/plugins/common/verification/reporters.py\<close> turns a list of
  verification runs into a JSON or an HTML report. The interpreter is Python 3: a
  dictionary keeps the order of insertion, \<^verbatim>\<open>keys()\<close> is a view, and \<^verbatim>\<open>str.strip\<close> takes
  the separators \<^verbatim>\<open>0x1c\<close> to \<^verbatim>\<open>0x1f\<close> for whitespace. Python values are modelled as
  follows.
  \<^item> A \<^verbatim>\<open>str\<close> is a \<open>string\<close> of ASCII characters.
  \<^item> A dictionary is an association list in insertion order; \<open>AList.update\<close> is the
    assignment \<^verbatim>\<open>d[k] = v\<close> (a present key keeps its place, a new key goes last),
    \<open>map_of\<close> the lookup and \<open>map fst\<close> the keys. A later section puts the dictionaries
    that are changed in place, and those of the input, into a store.
  \<^item> A duration is numeric (a Python float); floats are modelled by rationals with exact
    arithmetic, so rounding of IEEE doubles is outside the model. How Python prints
    a float (\<^verbatim>\<open>"%s" % x\<close>) is a parameter \<open>fmt\<close> of the HTML formatter.
  \<^item> \<^verbatim>\<open>datetime.strftime\<close>, the encoder of \<^verbatim>\<open>json.dumps\<close> on what it serialises and the
    template renderer are parameters as well: they are libraries outside the module.
    That \<^verbatim>\<open>json.dumps\<close> raises \<^verbatim>\<open>TypeError\<close> on a view of keys is modelled.
  \<^item> An exception is a value: a call that raises returns \<open>Inl\<close> of the error.
\<close>

text \<open>One test result of a run: the dictionary \<^verbatim>\<open>result\<close>. The keys read with
  \<^verbatim>\<open>result.get(key, default)\<close> are optional.\<close>

record test_result =
  r_name :: string
  r_tags :: "string list option"
  r_status :: string
  r_duration :: rat
  r_reason :: "string option"
  r_traceback :: "string option"

text \<open>A verification run \<^verbatim>\<open>v\<close>; \<open>'t\<close> is the type of timestamps, \<open>'a\<close> the
  type of the opaque run arguments and \<open>'r\<close> the type of a result in \<^verbatim>\<open>v.tests\<close>: the
  dictionary as a value, or a reference to it in a store.\<close>

record ('t, 'a, 'r) verification =
  uuid :: string
  created_at :: 't
  updated_at :: 't
  status :: string
  run_args :: 'a
  tests_count :: int
  tests_duration :: rat
  skipped :: int
  success :: int
  expected_failures :: int
  unexpected_success :: int
  failures :: int
  tests :: "(string \<times> 'r) list"

text \<open>The summary stored under \<^verbatim>\<open>verifications[v.uuid]\<close>.\<close>

record 'a summary =
  started_at :: string
  finished_at :: string
  s_status :: string
  s_run_args :: 'a
  s_tests_count :: int
  s_tests_duration :: rat
  s_skipped :: int
  s_success :: int
  s_expected_failures :: int
  s_unexpected_success :: int
  s_failures :: int

text \<open>A value that is a float or a string: the \<^verbatim>\<open>"duration"\<close> of a per-run entry is
  the float of the input until the HTML formatter overwrites it with a string.\<close>

datatype pyval = PyFloat rat | PyStr string

text \<open>The \<^verbatim>\<open>"details"\<close> key of a per-run entry: missing, \<^verbatim>\<open>None\<close>, or a text.\<close>

datatype details = NoKey | PyNone | Text string

text \<open>The per-run entry \<^verbatim>\<open>tests[test_id]["by_verification"][v.uuid]\<close>.\<close>

record entry =
  e_status :: string
  e_duration :: pyval
  e_details :: details

text \<open>The entry \<^verbatim>\<open>tests[test_id]\<close>; \<open>has_details\<close> is \<open>None\<close> while the key is
  missing (the HTML formatter adds it).\<close>

record test =
  tags :: "string list"
  name :: string
  by_verification :: "(string \<times> entry) list"
  has_details :: "bool option"

record 'a report =
  verifications :: "(string \<times> 'a summary) list"
  rep_tests :: "(string \<times> test) list"

section \<open>The aggregator: \<^verbatim>\<open>JSONReporter._generate\<close>\<close>

subsection \<open>Tags\<close>

text \<open>\<^verbatim>\<open>sorted(tags, reverse=True, key=lambda tag: tag.startswith("id-"))\<close>.
  CPython sorts stably; with \<^verbatim>\<open>reverse=True\<close> it reverses the list, sorts it stably
  in ascending order of the key and reverses the result. \<open>sort_key\<close> is a stable
  insertion sort, and \<open>False < True\<close>.\<close>

definition startswith :: "string \<Rightarrow> string \<Rightarrow> bool" where
  "startswith s p = prefix p s"

definition sorted_reverse :: "('a \<Rightarrow> bool) \<Rightarrow> 'a list \<Rightarrow> 'a list" where
  "sorted_reverse key xs = rev (sort_key key (rev xs))"

definition sort_tags :: "string list \<Rightarrow> string list" where
  "sort_tags ts = sorted_reverse (\<lambda>tag. startswith tag ''id-'') ts"

subsection \<open>The skip pattern and the bug link\<close>

text \<open>\<^verbatim>\<open>\d\<close> on ASCII text.\<close>

definition isdigit :: "char \<Rightarrow> bool" where
  "isdigit c = (c \<in> set ''0123456789'')"

text \<open>Matching a literal at the start of a string gives the rest of the string.\<close>

definition match_lit :: "string \<Rightarrow> string \<Rightarrow> string option" where
  "match_lit p s = (if prefix p s then Some (drop (length p) s) else None)"

text \<open>
  \<^verbatim>\<open>SKIP_RE.match(reason)\<close> for
  \<^verbatim>\<open>SKIP_RE = re.compile("Skipped until Bug: ?(?P<bug_number>\d+) is resolved.")\<close>,
  returning the group \<^verbatim>\<open>bug_number\<close> when the pattern matches. \<^verbatim>\<open>match\<close> anchors
  the pattern at the start of the text only. The optional space and the digits are
  greedy, and backtracking finds nothing more: a shorter run of digits would have to be
  followed by a space where a digit stands, and skipping the optional space would put
  \<^verbatim>\<open>\d+\<close> on a space. The final \<^verbatim>\<open>.\<close> is unescaped: it matches any one character
  but a newline.
\<close>

definition SKIP_RE_match :: "string \<Rightarrow> string option" where
  "SKIP_RE_match s =
     (case match_lit ''Skipped until Bug:'' s of
        None \<Rightarrow> None
      | Some r0 \<Rightarrow>
          (let r1 = (case match_lit '' '' r0 of Some r \<Rightarrow> r | None \<Rightarrow> r0);
               bug_number = takeWhile isdigit r1
           in if bug_number = [] then None
              else (case match_lit '' is resolved'' (dropWhile isdigit r1) of
                      None \<Rightarrow> None
                    | Some r2 \<Rightarrow>
                        (case r2 of
                           [] \<Rightarrow> None
                         | c # _ \<Rightarrow> if c = CHR 0x0A then None else Some bug_number))))"

text \<open>\<^verbatim>\<open>LP_BUG_LINK % bug_number\<close>.\<close>

definition LP_BUG_LINK :: "string \<Rightarrow> string" where
  "LP_BUG_LINK n = ''https://launchpad.net/bugs/'' @ n"

text \<open>
  \<^verbatim>\<open>re.sub(pat, repl, s)\<close> for a pattern without metacharacters and a replacement
  without backslashes (here: a run of digits and the link): the text is scanned from the
  left, each occurrence of \<open>pat\<close> is replaced and the scan goes on behind it. An empty
  pattern matches before every character and at the end.
\<close>

fun re_sub :: "string \<Rightarrow> string \<Rightarrow> string \<Rightarrow> string" where
  "re_sub pat repl [] = (if pat = [] then repl else [])"
| "re_sub pat repl (c # cs) =
     (if pat = [] then repl @ c # re_sub pat repl cs
      else if prefix pat (c # cs) then repl @ re_sub pat repl (drop (length pat - 1) cs)
      else c # re_sub pat repl cs)"

text \<open>Lines 79 to 85: the reason, with the bug number turned into a link.\<close>

definition rewrite_reason :: "string \<Rightarrow> string" where
  "rewrite_reason reason =
     (if reason \<noteq> [] then
        (case SKIP_RE_match reason of
           Some bug_number \<Rightarrow> re_sub bug_number (LP_BUG_LINK bug_number) reason
         | None \<Rightarrow> reason)
      else reason)"

subsection \<open>Details\<close>

text \<open>\<^verbatim>\<open>str.isspace\<close> on an ASCII character, and \<^verbatim>\<open>str.strip()\<close>.\<close>

definition isspace :: "char \<Rightarrow> bool" where
  "isspace c = (c \<in> set [CHR 0x09, CHR 0x0A, CHR 0x0B, CHR 0x0C, CHR 0x0D,
                          CHR 0x1C, CHR 0x1D, CHR 0x1E, CHR 0x1F, CHR 0x20])"

definition strip :: "string \<Rightarrow> string" where
  "strip s = rev (dropWhile isspace (rev (dropWhile isspace s)))"

text \<open>\<^verbatim>\<open>result.get(key, "")\<close>.\<close>

definition get_str :: "string option \<Rightarrow> string" where
  "get_str x = (case x of None \<Rightarrow> [] | Some s \<Rightarrow> s)"

text \<open>Lines 79 to 88: the value \<^verbatim>\<open>d\<close>; \<open>None\<close> is Python's \<^verbatim>\<open>None\<close>.\<close>

definition details_of :: "test_result \<Rightarrow> string option" where
  "details_of result =
     (let reason = rewrite_reason (get_str (r_reason result));
          traceback = get_str (r_traceback result);
          sep = (if reason \<noteq> [] \<and> traceback \<noteq> [] then [CHR 0x0A, CHR 0x0A] else []);
          d = reason @ sep @ strip traceback
      in if d = [] then None else Some d)"

subsection \<open>The loops\<close>

text \<open>Lines 65 to 90, the body of the loop over \<^verbatim>\<open>v.tests.items()\<close>.\<close>

definition add_test :: "string \<Rightarrow> string \<times> test_result \<Rightarrow> (string \<times> test) list \<Rightarrow> (string \<times> test) list" where
  "add_test v_uuid item tsts =
     (let test_id = fst item;
          result = snd item;
          tsts1 =
            (if test_id \<notin> fst ` set tsts then
               AList.update test_id
                 \<lparr>tags = sort_tags (case r_tags result of None \<Rightarrow> [] | Some ts \<Rightarrow> ts),
                  name = r_name result,
                  by_verification = [],
                  has_details = None\<rparr> tsts
             else tsts);
          tsts2 =
            AList.map_entry test_id
              (\<lambda>t. t\<lparr>by_verification :=
                   AList.update v_uuid
                     \<lparr>e_status = r_status result,
                      e_duration = PyFloat (r_duration result),
                      e_details = NoKey\<rparr> (by_verification t)\<rparr>) tsts1
      in case details_of result of
           None \<Rightarrow> tsts2
         | Some d \<Rightarrow>
             AList.map_entry test_id
               (\<lambda>t. t\<lparr>by_verification :=
                    AList.map_entry v_uuid (\<lambda>e. e\<lparr>e_details := Text d\<rparr>) (by_verification t)\<rparr>)
               tsts2)"

text \<open>Lines 50 to 62.\<close>

definition summary_of :: "('t \<Rightarrow> string \<Rightarrow> string) \<Rightarrow> string \<Rightarrow> ('t, 'a, 'r) verification \<Rightarrow> 'a summary" where
  "summary_of strftime TIME_FORMAT v =
     \<lparr>started_at = strftime (created_at v) TIME_FORMAT,
      finished_at = strftime (updated_at v) TIME_FORMAT,
      s_status = status v,
      s_run_args = run_args v,
      s_tests_count = tests_count v,
      s_tests_duration = tests_duration v,
      s_skipped = skipped v,
      s_success = success v,
      s_expected_failures = expected_failures v,
      s_unexpected_success = unexpected_success v,
      s_failures = failures v\<rparr>"

text \<open>Lines 49 to 90, the body of the loop over \<^verbatim>\<open>self.verifications\<close>.\<close>

definition add_verification :: "('t \<Rightarrow> string \<Rightarrow> string) \<Rightarrow> string \<Rightarrow> ('t, 'a, test_result) verification \<Rightarrow> 'a report \<Rightarrow> 'a report" where
  "add_verification strftime TIME_FORMAT v rep =
     \<lparr>verifications = AList.update (uuid v) (summary_of strftime TIME_FORMAT v) (verifications rep),
      rep_tests = fold (add_test (uuid v)) (tests v) (rep_tests rep)\<rparr>"

text \<open>\<^verbatim>\<open>JSONReporter._generate\<close>.\<close>

definition generate_raw :: "('t \<Rightarrow> string \<Rightarrow> string) \<Rightarrow> string \<Rightarrow> ('t, 'a, test_result) verification list \<Rightarrow> 'a report" where
  "generate_raw strftime TIME_FORMAT vs =
     fold (add_verification strftime TIME_FORMAT) vs \<lparr>verifications = [], rep_tests = []\<rparr>"

section \<open>The JSON formatter: \<^verbatim>\<open>JSONReporter.generate\<close>\<close>

text \<open>The value that \<^verbatim>\<open>generate\<close> returns is a dictionary whose values are a string
  or, under \<^verbatim>\<open>"files"\<close>, a dictionary from destinations to strings.\<close>

datatype outval = OStr string | OFiles "(string \<times> string) list"

text \<open>The truth value of \<^verbatim>\<open>self.output_destination\<close>: \<^verbatim>\<open>None\<close> and the empty
  string are false.\<close>

definition truthy :: "string option \<Rightarrow> bool" where
  "truthy d = (case d of None \<Rightarrow> False | Some s \<Rightarrow> s \<noteq> [])"

text \<open>Lines 94 to 101. \<open>dumps\<close> is \<^verbatim>\<open>json.dumps(_, indent=4)\<close>.\<close>

definition JSONReporter_generate ::
  "('t \<Rightarrow> string \<Rightarrow> string) \<Rightarrow> ('a report \<Rightarrow> string) \<Rightarrow>
   ('t, 'a, test_result) verification list \<Rightarrow> string option \<Rightarrow> (string \<times> outval) list" where
  "JSONReporter_generate strftime dumps vs output_destination =
     (let raw_report = dumps (generate_raw strftime ''%Y-%m-%dT%H:%M:%S%z'' vs)
      in if truthy output_destination then
           [(''files'', OFiles [(the output_destination, raw_report)]),
            (''open'', OStr (the output_destination))]
         else [(''print'', OStr raw_report)])"

section \<open>The HTML formatter: \<^verbatim>\<open>HTMLReporter.generate\<close>\<close>

text \<open>Lines 120 to 125: the loop over \<^verbatim>\<open>test["by_verification"].values()\<close>, with
  the flag \<^verbatim>\<open>test["has_details"]\<close> as its state.\<close>

fun mark_details :: "(string \<times> entry) list \<Rightarrow> bool \<Rightarrow> (string \<times> entry) list \<times> bool" where
  "mark_details [] h = ([], h)"
| "mark_details ((u, test_info) # rest) h =
     (if e_details test_info = NoKey then
        (let (rest', h') = mark_details rest h
         in ((u, test_info\<lparr>e_details := PyNone\<rparr>) # rest', h'))
      else
        (let (rest', h') = mark_details rest (if \<not> h then True else h)
         in ((u, test_info) # rest', h')))"

text \<open>\<^verbatim>\<open>float(x)\<close>: a float is itself. Of the strings only the runs of ASCII digits are
  modelled: the formatter converts no other string than the \<^verbatim>\<open>"0"\<close> it has stored.\<close>

definition digits_value :: "string \<Rightarrow> nat" where
  "digits_value s = foldl (\<lambda>n c. 10 * n + (of_char c - 48)) 0 s"

fun py_float :: "pyval \<Rightarrow> rat" where
  "py_float (PyFloat r) = r"
| "py_float (PyStr s) = of_nat (digits_value s)"

text \<open>\<^verbatim>\<open>"%s" % x\<close>; \<open>fmt\<close> prints a float.\<close>

fun py_str :: "(rat \<Rightarrow> string) \<Rightarrow> pyval \<Rightarrow> string" where
  "py_str fmt (PyFloat r) = fmt r"
| "py_str fmt (PyStr s) = s"

text \<open>\<^verbatim>\<open>test["by_verification"][uuid]["duration"] = d\<close>.\<close>

definition set_duration :: "string \<Rightarrow> pyval \<Rightarrow> (string \<times> entry) list \<Rightarrow> (string \<times> entry) list" where
  "set_duration u d bv = AList.map_entry u (\<lambda>e. e\<lparr>e_duration := d\<rparr>) bv"

text \<open>Lines 130 to 145: the body of the loop over \<^verbatim>\<open>uuids\<close>; the state is the list
  \<^verbatim>\<open>durations\<close> and the dictionary \<^verbatim>\<open>test["by_verification"]\<close>.\<close>

definition duration_step ::
  "(rat \<Rightarrow> string) \<Rightarrow> string \<Rightarrow> pyval list \<times> (string \<times> entry) list \<Rightarrow> pyval list \<times> (string \<times> entry) list" where
  "duration_step fmt u st =
     (case st of (durations, bv) \<Rightarrow>
        (case map_of bv u of
           None \<Rightarrow> (durations, bv)
         | Some e \<Rightarrow>
             (let ds1 = durations @ [e_duration e];
                  small = (py_float (last ds1) < 0.001);
                  ds2 = (if small then butlast ds1 @ [PyStr ''0''] else ds1);
                  bv2 = (if small then set_duration u (PyStr []) bv else bv);
                  bv3 =
                    (if length ds2 > 1 \<and> \<not> (hd ds2 = PyStr ''0'' \<and> last ds2 = PyStr ''0'') then
                       (let diff = py_float (last ds2) - py_float (hd ds2);
                            result = py_str fmt (last ds2) @ '' ('' @
                                     (if diff \<ge> 0 then ''+'' else []) @ fmt diff @ '')''
                        in set_duration u (PyStr result) bv2)
                     else bv2)
              in (ds2, bv3))))"

text \<open>Lines 117 to 145 for one test: the entry as the formatter leaves it, and the
  list \<^verbatim>\<open>durations\<close>.\<close>

definition html_test :: "(rat \<Rightarrow> string) \<Rightarrow> string list \<Rightarrow> test \<Rightarrow> test \<times> pyval list" where
  "html_test fmt uuids t =
     (let (bv1, h) = mark_details (by_verification t) False;
          (durations, bv2) = fold (duration_step fmt) uuids ([], bv1)
      in (t\<lparr>by_verification := bv2, has_details := Some h\<rparr>, durations))"

text \<open>Lines 117 to 151: the loop over \<^verbatim>\<open>report["tests"].values()\<close>, with
  \<^verbatim>\<open>show_comparison_note\<close> as its state.\<close>

fun html_tests ::
  "(rat \<Rightarrow> string) \<Rightarrow> string list \<Rightarrow> (string \<times> test) list \<Rightarrow> bool \<Rightarrow> (string \<times> test) list \<times> bool" where
  "html_tests fmt uuids [] note = ([], note)"
| "html_tests fmt uuids ((test_id, t) # rest) note =
     (let (t', durations) = html_test fmt uuids t;
          note' = (if \<not> note \<and> length durations > 2 then True else note);
          (rest', note'') = html_tests fmt uuids rest note'
      in ((test_id, t') # rest', note''))"

text \<open>Line 114: on Python 3 \<^verbatim>\<open>keys()\<close> of a dictionary is no list, it is a view of the
  keys, in the order of the dictionary. A loop over it runs through the keys.\<close>

datatype pyseq = PyList "string list" | KeysView "string list"

fun elems :: "pyseq \<Rightarrow> string list" where
  "elems (PyList xs) = xs"
| "elems (KeysView xs) = xs"

text \<open>The dictionary \<^verbatim>\<open>context\<close> of lines 154 to 157.\<close>

record 'a template_context =
  c_uuids :: pyseq
  c_verifications :: "(string \<times> 'a summary) list"
  c_tests :: "(string \<times> test) list"
  show_comparison_note :: bool

text \<open>Lines 113 to 157.\<close>

definition html_context ::
  "('t \<Rightarrow> string \<Rightarrow> string) \<Rightarrow> (rat \<Rightarrow> string) \<Rightarrow> ('t, 'a, test_result) verification list \<Rightarrow> 'a template_context" where
  "html_context strftime fmt vs =
     (let report = generate_raw strftime ''%Y-%m-%d %H:%M:%S'' vs;
          uuids = KeysView (map fst (verifications report));
          (tests', note) = html_tests fmt (elems uuids) (rep_tests report) False
      in \<lparr>c_uuids = uuids,
          c_verifications = verifications report,
          c_tests = tests',
          show_comparison_note = note\<rparr>)"

text \<open>\<^verbatim>\<open>json.dumps\<close> on the context. The encoder of Python 3 serialises dictionaries,
  lists, tuples, strings, numbers, booleans and \<^verbatim>\<open>None\<close>, and raises \<^verbatim>\<open>TypeError\<close> on
  an object of any other type; a view of keys is such an object. \<open>enc\<close> is the encoder on
  the contexts that it serialises.\<close>

datatype error = TypeError

definition json_dumps :: "('a template_context \<Rightarrow> string) \<Rightarrow> 'a template_context \<Rightarrow> error + string" where
  "json_dumps enc obj =
     (case c_uuids obj of
        KeysView ks \<Rightarrow> Inl TypeError
      | PyList us \<Rightarrow> Inr (enc obj))"

text \<open>\<^verbatim>\<open>HTMLReporter.generate\<close>. \<open>render\<close> is the template
  \<^verbatim>\<open>verification/report.html\<close>, called with the data and \<^verbatim>\<open>include_libs\<close>. The class
  attribute \<^verbatim>\<open>INCLUDE_LIBS\<close> is an argument: \<^verbatim>\<open>HTMLStaticReporter\<close> overrides it and
  nothing else. An exception of line 159 ends the call: it is the result.\<close>

definition HTMLReporter_generate_with ::
  "bool \<Rightarrow> ('t \<Rightarrow> string \<Rightarrow> string) \<Rightarrow> (rat \<Rightarrow> string) \<Rightarrow> ('a template_context \<Rightarrow> string) \<Rightarrow>
   (string \<Rightarrow> bool \<Rightarrow> string) \<Rightarrow> ('t, 'a, test_result) verification list \<Rightarrow> string option \<Rightarrow>
   error + (string \<times> outval) list" where
  "HTMLReporter_generate_with INCLUDE_LIBS strftime fmt enc render vs output_destination =
     (case json_dumps enc (html_context strftime fmt vs) of
        Inl e \<Rightarrow> Inl e
      | Inr data \<Rightarrow>
          (let raw_report = render data INCLUDE_LIBS
           in Inr (if truthy output_destination then
                     [(''files'', OFiles [(the output_destination, raw_report)]),
                      (''open'', OStr (the output_destination))]
                   else [(''print'', OStr raw_report)])))"

definition HTMLReporter_generate ::
  "('t \<Rightarrow> string \<Rightarrow> string) \<Rightarrow> (rat \<Rightarrow> string) \<Rightarrow> ('a template_context \<Rightarrow> string) \<Rightarrow>
   (string \<Rightarrow> bool \<Rightarrow> string) \<Rightarrow> ('t, 'a, test_result) verification list \<Rightarrow> string option \<Rightarrow>
   error + (string \<times> outval) list" where
  "HTMLReporter_generate = HTMLReporter_generate_with False"

definition HTMLStaticReporter_generate ::
  "('t \<Rightarrow> string \<Rightarrow> string) \<Rightarrow> (rat \<Rightarrow> string) \<Rightarrow> ('a template_context \<Rightarrow> string) \<Rightarrow>
   (string \<Rightarrow> bool \<Rightarrow> string) \<Rightarrow> ('t, 'a, test_result) verification list \<Rightarrow> string option \<Rightarrow>
   error + (string \<times> outval) list" where
  "HTMLStaticReporter_generate = HTMLReporter_generate_with True"

section \<open>Notions for the statements\<close>

text \<open>The per-run entry that lines 74 to 90 build from a result, and the entry of a test
  first seen with the result \<open>r\<close>.\<close>

definition entry_of :: "test_result \<Rightarrow> entry" where
  "entry_of r =
     \<lparr>e_status = r_status r,
      e_duration = PyFloat (r_duration r),
      e_details = (case details_of r of None \<Rightarrow> NoKey | Some d \<Rightarrow> Text d)\<rparr>"

definition new_test :: "test_result \<Rightarrow> (string \<times> entry) list \<Rightarrow> test" where
  "new_test r bv =
     \<lparr>tags = sort_tags (case r_tags r of None \<Rightarrow> [] | Some ts \<Rightarrow> ts),
      name = r_name r,
      by_verification = bv,
      has_details = None\<rparr>"

text \<open>The result of a test in the first run that has it, and the per-run entries of a
  test in the order of the runs.\<close>

fun first_result :: "('t, 'a, test_result) verification list \<Rightarrow> string \<Rightarrow> test_result option" where
  "first_result [] t = None"
| "first_result (v # vs) t =
     (case map_of (tests v) t of Some r \<Rightarrow> Some r | None \<Rightarrow> first_result vs t)"

definition runs_of :: "('t, 'a, test_result) verification list \<Rightarrow> string \<Rightarrow> (string \<times> entry) list" where
  "runs_of vs t =
     concat (map (\<lambda>v. case map_of (tests v) t of None \<Rightarrow> [] | Some r \<Rightarrow> [(uuid v, entry_of r)]) vs)"

text \<open>The runs have distinct identifiers, and the keys of a dictionary are distinct.\<close>

definition wf_input :: "('t, 'a, test_result) verification list \<Rightarrow> bool" where
  "wf_input vs = (distinct (map uuid vs) \<and> list_all (\<lambda>v. distinct (map fst (tests v))) vs)"

text \<open>What one pass of lines 65 to 90 does to the entry of its test.\<close>

definition upd :: "string \<Rightarrow> test_result \<Rightarrow> test option \<Rightarrow> test" where
  "upd u r old =
     (case old of
        None \<Rightarrow> new_test r [(u, entry_of r)]
      | Some e \<Rightarrow> e\<lparr>by_verification := AList.update u (entry_of r) (by_verification e)\<rparr>)"

section \<open>Example data\<close>

text \<open>Two runs for the examples: the test \<^verbatim>\<open>t1\<close> is in both, \<^verbatim>\<open>t2\<close> in the second only.
  The timestamps are numbers and \<open>example_strftime\<close> prints the format itself.\<close>

definition example_result :: "string list option \<Rightarrow> rat \<Rightarrow> string option \<Rightarrow> string option \<Rightarrow> test_result" where
  "example_result tgs d reason tb =
     \<lparr>r_name = ''test_foo'', r_tags = tgs, r_status = ''success'',
      r_duration = d, r_reason = reason, r_traceback = tb\<rparr>"

definition example_run :: "string \<Rightarrow> (string \<times> 'r) list \<Rightarrow> (nat, unit, 'r) verification" where
  "example_run u ts =
     \<lparr>uuid = u, created_at = 0, updated_at = 0, status = ''finished'', run_args = (),
      tests_count = int (length ts), tests_duration = 0, skipped = 0, success = int (length ts),
      expected_failures = 0, unexpected_success = 0, failures = 0, tests = ts\<rparr>"

definition example_strftime :: "nat \<Rightarrow> string \<Rightarrow> string" where
  "example_strftime t f = f"

definition run1 :: "(nat, unit, test_result) verification" where
  "run1 = example_run ''u1'' [(''t1'', example_result (Some [''foo'', ''id-2'']) 1 None None)]"

definition run2 :: "(nat, unit, test_result) verification" where
  "run2 = example_run ''u2'' [(''t2'', example_result None 2 None None),
                             (''t1'', example_result (Some [''bar'']) 3 None None)]"

text \<open>A run with one test whose reason is \<^verbatim>\<open>flaky\<close> and whose traceback is given.\<close>

definition flaky_run :: "string \<Rightarrow> (nat, unit, test_result) verification" where
  "flaky_run tb = example_run ''u1'' [(''t1'', example_result None 1 (Some ''flaky'') (Some tb))]"

text \<open>A run with one test, skipped with the given reason and without a traceback.\<close>

definition skipped_run :: "string \<Rightarrow> (nat, unit, test_result) verification" where
  "skipped_run reason = example_run ''u1'' [(''t1'', example_result None 0 (Some reason) None)]"

text \<open>A serialiser for the examples: it prints the identifiers of the tests.\<close>

definition example_dumps :: "unit report \<Rightarrow> string" where
  "example_dumps rep = concat (map fst (rep_tests rep))"

text \<open>An encoder of contexts and a template for the examples: the encoder prints the
  identifiers of the tests, the template its data and whether the libraries are
  included.\<close>

definition example_enc :: "unit template_context \<Rightarrow> string" where
  "example_enc c = concat (map fst (c_tests c))"

definition example_render :: "string \<Rightarrow> bool \<Rightarrow> string" where
  "example_render data include_libs = data @ (if include_libs then ''+libs'' else [])"

text \<open>The adjusted duration, as the list \<^verbatim>\<open>durations\<close> holds it: the string \<^verbatim>\<open>"0"\<close> for
  a duration below 0.001, the duration itself otherwise.\<close>

definition adjusted :: "rat \<Rightarrow> pyval" where
  "adjusted r = (if r < 0.001 then PyStr ''0'' else PyFloat r)"

text \<open>The duration field of a run that is not the first of its test: \<open>d0\<close> is the
  adjusted duration of the first run and \<open>r\<close> the duration of this run.\<close>

definition later_field :: "(rat \<Rightarrow> string) \<Rightarrow> pyval \<Rightarrow> rat \<Rightarrow> pyval" where
  "later_field fmt d0 r =
     (if d0 = PyStr ''0'' \<and> r < 0.001 then PyStr []
      else PyStr (py_str fmt (adjusted r) @ '' (''
                  @ (if py_float (adjusted r) - py_float d0 \<ge> 0 then ''+'' else [])
                  @ fmt (py_float (adjusted r) - py_float d0) @ '')''))"

text \<open>For the examples, how Python prints a float: the sign, the integer part, a point
  and the decimals, \<^verbatim>\<open>0\<close> when there is none. It is exact for the floats of the
  examples; exponents and the rounding to the shortest decimal are not modelled.\<close>

definition digit_char :: "nat \<Rightarrow> char" where
  "digit_char d = char_of (48 + d)"

fun nat_digits :: "nat \<Rightarrow> nat \<Rightarrow> string" where
  "nat_digits 0 n = []"
| "nat_digits (Suc fuel) n =
     (if n < 10 then [digit_char n] else nat_digits fuel (n div 10) @ [digit_char (n mod 10)])"

fun frac_digits :: "nat \<Rightarrow> rat \<Rightarrow> string" where
  "frac_digits 0 f = []"
| "frac_digits (Suc fuel) f =
     (if f = 0 then []
      else (let d = nat \<lfloor>f * 10\<rfloor> in digit_char d # frac_digits fuel (f * 10 - of_nat d)))"

definition float_str :: "rat \<Rightarrow> string" where
  "float_str r =
     (let a = \<bar>r\<bar>;
          i = nat \<lfloor>a\<rfloor>;
          fr = frac_digits 17 (a - of_nat i)
      in (if r < 0 then ''-'' else []) @ nat_digits 20 i @ ''.'' @ (if fr = [] then ''0'' else fr))"

text \<open>Two runs of one test, with the given durations.\<close>

definition duration_runs :: "rat \<Rightarrow> rat \<Rightarrow> (nat, unit, test_result) verification list" where
  "duration_runs d1 d2 =
     [example_run ''u1'' [(''t1'', example_result None d1 None None)],
      example_run ''u2'' [(''t1'', example_result None d2 None None)]]"

section \<open>The reporters on a store of dictionaries\<close>

text \<open>
  Python dictionaries are objects: the HTML formatter changes the entries of the tests
  and their per-run entries in place, and a second call of \<^verbatim>\<open>generate\<close> reads the input
  as the first call has left it. To follow this, the dictionaries that matter live in a
  store: the result dictionaries of the input, the entries \<^verbatim>\<open>tests[test_id]\<close> and the
  per-run entries that \<^verbatim>\<open>_generate\<close> builds. A dictionary literal allocates a new cell,
  \<^verbatim>\<open>d[key] = value\<close> on such a dictionary writes to its cell, and \<^verbatim>\<open>v.tests\<close>, \<^verbatim>\<open>tests\<close> and
  \<^verbatim>\<open>by_verification\<close> hold references to cells. The dictionary \<^verbatim>\<open>by_verification\<close> is a
  part of the cell of its test. The local variables \<^verbatim>\<open>verifications\<close> and \<^verbatim>\<open>tests\<close> of
  \<^verbatim>\<open>_generate\<close> are the state of its loops.
\<close>

type_synonym addr = nat

text \<open>The entry \<^verbatim>\<open>tests[test_id]\<close> with references to its per-run entries.\<close>

record ref_test =
  rt_tags :: "string list"
  rt_name :: string
  rt_by_verification :: "(string \<times> addr) list"
  rt_has_details :: "bool option"

datatype cell = ResultCell test_result | TestCell ref_test | EntryCell entry

record store =
  cells :: "addr \<Rightarrow> cell option"
  free :: addr

text \<open>A dictionary literal: the new cell is the first free one.\<close>

definition alloc :: "cell \<Rightarrow> store \<Rightarrow> addr \<times> store" where
  "alloc c h = (free h, h\<lparr>cells := (cells h)(free h \<mapsto> c), free := Suc (free h)\<rparr>)"


definition test_at :: "store \<Rightarrow> addr \<Rightarrow> ref_test" where
  "test_at h a =
     (case cells h a of
        Some (TestCell t) \<Rightarrow> t
      | _ \<Rightarrow> \<lparr>rt_tags = [], rt_name = [], rt_by_verification = [], rt_has_details = None\<rparr>)"

definition entry_at :: "store \<Rightarrow> addr \<Rightarrow> entry" where
  "entry_at h a =
     (case cells h a of
        Some (EntryCell e) \<Rightarrow> e
      | _ \<Rightarrow> \<lparr>e_status = [], e_duration = PyStr [], e_details = NoKey\<rparr>)"

text \<open>An assignment to a key of the dictionary at \<open>a\<close>: its cell holds the changed
  dictionary afterwards.\<close>

definition write_test :: "addr \<Rightarrow> (ref_test \<Rightarrow> ref_test) \<Rightarrow> store \<Rightarrow> store" where
  "write_test a f h = h\<lparr>cells := (cells h)(a \<mapsto> TestCell (f (test_at h a)))\<rparr>"

definition write_entry :: "addr \<Rightarrow> (entry \<Rightarrow> entry) \<Rightarrow> store \<Rightarrow> store" where
  "write_entry a f h = h\<lparr>cells := (cells h)(a \<mapsto> EntryCell (f (entry_at h a)))\<rparr>"































section \<open>Properties of the aggregator\<close>

subsection \<open>Tags\<close>

lemma insort_key_skip:
  fixes key :: "'a \<Rightarrow> bool"
  shows "\<forall>a\<in>set as. \<not> key a \<Longrightarrow> key x \<Longrightarrow> insort_key key x (as @ bs) = as @ insort_key key x bs"
  by (induction as) simp_all

lemma insort_key_bool:
  fixes key :: "'a \<Rightarrow> bool"
  shows "insort_key key x (filter (\<lambda>y. \<not> key y) ys @ filter key ys)
         = filter (\<lambda>y. \<not> key y) (x # ys) @ filter key (x # ys)"
proof (cases "key x")
  case True
  have "insort_key key x (filter key ys) = x # filter key ys"
    by (rule insort_is_Cons) simp
  with True show ?thesis by (simp add: insort_key_skip)
next
  case False
  have "insort_key key x (filter (\<lambda>y. \<not> key y) ys @ filter key ys)
        = x # (filter (\<lambda>y. \<not> key y) ys @ filter key ys)"
    by (rule insort_is_Cons) (simp add: False)
  with False show ?thesis by simp
qed

lemma sort_key_bool:
  fixes key :: "'a \<Rightarrow> bool"
  shows "sort_key key xs = filter (\<lambda>x. \<not> key x) xs @ filter key xs"
proof (induction xs)
  case Nil
  show ?case by simp
next
  case (Cons x xs)
  have "sort_key key (x # xs) = insort_key key x (sort_key key xs)" by simp
  also have "\<dots> = insort_key key x (filter (\<lambda>x. \<not> key x) xs @ filter key xs)"
    by (simp only: Cons.IH)
  also have "\<dots> = filter (\<lambda>y. \<not> key y) (x # xs) @ filter key (x # xs)"
    by (rule insort_key_bool)
  finally show ?case .
qed

lemma sorted_reverse_filter:
  "sorted_reverse key xs = filter key xs @ filter (\<lambda>x. \<not> key x) xs"
  by (simp add: sorted_reverse_def sort_key_bool rev_filter)

text \<open>
  C3. The tags that start with \<^verbatim>\<open>id-\<close> come first and the other tags follow; inside
  each of the two groups the tags keep the order of the input. The tags
  \<^verbatim>\<open>["foo", "id-2", "bar", "id-1"]\<close> are sorted to \<^verbatim>\<open>["id-2", "id-1", "foo", "bar"]\<close>.
\<close>

theorem sort_tags_id_first:
  "sort_tags ts = filter (\<lambda>tag. startswith tag ''id-'') ts @ filter (\<lambda>tag. \<not> startswith tag ''id-'') ts
   \<and> sort_tags [''foo'', ''id-2'', ''bar'', ''id-1''] = [''id-2'', ''id-1'', ''foo'', ''bar'']"
  by (simp add: sort_tags_def sorted_reverse_filter startswith_def)

subsection \<open>The aggregated tests\<close>

lemma map_entry_keys: "map fst (AList.map_entry k f xs) = map fst xs"
  by (induction xs) auto

lemma map_entry_update: "AList.map_entry k f (AList.update k v xs) = AList.update k (f v) xs"
  by (induction xs) auto

lemma map_entry_map_entry:
  "AList.map_entry k f (AList.map_entry k g xs) = AList.map_entry k (\<lambda>x. f (g x)) xs"
  by (induction xs) auto

lemma add_test_keys:
  "map fst (add_test u (t, r) T) = (if t \<in> fst ` set T then map fst T else map fst T @ [t])"
  by (simp add: add_test_def Let_def map_entry_keys AList.update_keys split: option.split)

lemma add_test_map_of:
  "map_of (add_test u (t, r) T) = (map_of T)(t \<mapsto> upd u r (map_of T t))"
proof (cases "t \<in> fst ` set T")
  case True
  then obtain e where e: "map_of T t = Some e"
    by (metis domD dom_map_of_conv_image_fst)
  show ?thesis using True e
    by (cases "details_of r")
       (auto simp add: add_test_def Let_def map_entry_map_entry map_of_map_entry upd_def
         entry_of_def map_entry_update fun_eq_iff)
next
  case False
  then have e: "map_of T t = None"
    by (simp add: map_of_eq_None_iff)
  show ?thesis using False e
    by (cases "details_of r")
       (auto simp add: add_test_def Let_def map_entry_map_entry map_of_map_entry upd_def
         entry_of_def map_entry_update fun_eq_iff AList.update_conv' new_test_def)
qed


lemma fold_add_test_keys_set:
  "set (map fst (fold (add_test u) items T)) = set (map fst T) \<union> set (map fst items)"
proof (induction items arbitrary: T)
  case Nil
  show ?case by simp
next
  case (Cons it items)
  obtain t r where it: "it = (t, r)" by (cases it)
  show ?case using Cons.IH [of "add_test u (t, r) T"]
    by (auto simp add: it add_test_keys)
qed

lemma fold_add_test_distinct:
  "distinct (map fst T) \<Longrightarrow> distinct (map fst (fold (add_test u) items T))"
proof (induction items arbitrary: T)
  case Nil
  then show ?case by simp
next
  case (Cons it items)
  obtain t r where it: "it = (t, r)" by (cases it)
  have "distinct (map fst (add_test u (t, r) T))"
    using Cons.prems by (auto simp add: add_test_keys)
  from Cons.IH [OF this] show ?case by (simp add: it)
qed

lemma fold_add_test_map_of:
  "distinct (map fst items) \<Longrightarrow>
   map_of (fold (add_test u) items T) t =
     (case map_of items t of None \<Rightarrow> map_of T t | Some r \<Rightarrow> Some (upd u r (map_of T t)))"
proof (induction items arbitrary: T)
  case Nil
  show ?case by simp
next
  case (Cons it items)
  obtain t' r' where it: "it = (t', r')" by (cases it)
  from Cons.prems have d: "distinct (map fst items)" and n: "t' \<notin> fst ` set items"
    by (auto simp add: it)
  from n have none: "map_of items t' = None" by (simp add: map_of_eq_None_iff)
  show ?case
    using Cons.IH [OF d, of "add_test u (t', r') T"] none
    by (auto simp add: it add_test_map_of split: option.split)
qed

lemma generate_raw_snoc:
  "generate_raw strftime fmt (vs @ [v]) = add_verification strftime fmt v (generate_raw strftime fmt vs)"
  by (simp add: generate_raw_def)

lemma first_result_snoc:
  "first_result (vs @ [v]) t =
     (case first_result vs t of Some r \<Rightarrow> Some r | None \<Rightarrow> map_of (tests v) t)"
  by (induction vs) (auto split: option.split)

lemma runs_of_snoc:
  "runs_of (vs @ [v]) t =
     runs_of vs t @ (case map_of (tests v) t of None \<Rightarrow> [] | Some r \<Rightarrow> [(uuid v, entry_of r)])"
  by (simp add: runs_of_def)

lemma runs_of_keys: "fst ` set (runs_of vs t) \<subseteq> uuid ` set vs"
  by (induction vs) (auto simp add: runs_of_def split: option.splits)

lemma update_fresh: "k \<notin> fst ` set xs \<Longrightarrow> AList.update k v xs = xs @ [(k, v)]"
  by (induction xs) auto

lemma first_result_None: "first_result vs t = None \<Longrightarrow> runs_of vs t = []"
  by (induction vs) (auto simp add: runs_of_def split: option.splits)

lemma generate_raw_verifications_keys:
  "distinct (map uuid vs) \<Longrightarrow> map fst (verifications (generate_raw strftime fmt vs)) = map uuid vs"
proof (induction vs rule: rev_induct)
  case Nil
  show ?case by (simp add: generate_raw_def)
next
  case (snoc v vs)
  then show ?case
    by (auto simp add: generate_raw_snoc add_verification_def AList.update_keys)
qed

lemma generate_raw_tests:
  "wf_input vs \<Longrightarrow>
   map_of (rep_tests (generate_raw strftime fmt vs)) t =
     (case first_result vs t of None \<Rightarrow> None | Some r \<Rightarrow> Some (new_test r (runs_of vs t)))"
proof (induction vs rule: rev_induct)
  case Nil
  show ?case by (simp add: generate_raw_def)
next
  case (snoc v vs)
  from snoc.prems have wf: "wf_input vs" and dv: "distinct (map fst (tests v))"
    and fresh: "uuid v \<notin> uuid ` set vs"
    by (auto simp add: wf_input_def)
  from fresh runs_of_keys [of vs t] have fr: "uuid v \<notin> fst ` set (runs_of vs t)" by blast
  note IH = snoc.IH [OF wf]
  show ?case
  proof (cases "map_of (tests v) t")
    case None
    then show ?thesis
      using IH dv
      by (simp add: generate_raw_snoc add_verification_def fold_add_test_map_of
          first_result_snoc runs_of_snoc split: option.split)
  next
    case (Some r)
    show ?thesis
    proof (cases "first_result vs t")
      case None
      with Some IH dv show ?thesis
        by (simp add: generate_raw_snoc add_verification_def fold_add_test_map_of
            first_result_snoc runs_of_snoc upd_def first_result_None)
    next
      case (Some r0)
      with \<open>map_of (tests v) t = Some r\<close> IH dv fr show ?thesis
        by (simp add: generate_raw_snoc add_verification_def fold_add_test_map_of
            first_result_snoc runs_of_snoc upd_def update_fresh new_test_def)
    qed
  qed
qed

lemma generate_raw_tests_keys:
  "set (map fst (rep_tests (generate_raw strftime fmt vs))) = (\<Union>v\<in>set vs. fst ` set (tests v))"
proof (induction vs rule: rev_induct)
  case Nil
  show ?case by (simp add: generate_raw_def)
next
  case (snoc v vs)
  then show ?case
    using fold_add_test_keys_set [of "uuid v" "tests v" "rep_tests (generate_raw strftime fmt vs)"]
    by (auto simp add: generate_raw_snoc add_verification_def)
qed

lemma generate_raw_tests_distinct:
  "distinct (map fst (rep_tests (generate_raw strftime fmt vs)))"
proof (induction vs rule: rev_induct)
  case Nil
  show ?case by (simp add: generate_raw_def)
next
  case (snoc v vs)
  then show ?case
    by (simp add: generate_raw_snoc add_verification_def fold_add_test_distinct)
qed



lemma in_keys_iff: "t \<in> fst ` set xs \<longleftrightarrow> (\<exists>r. map_of xs t = Some r)"
  by (metis map_of_eq_None_iff not_Some_eq)

lemma first_result_split:
  "\<forall>v'\<in>set vs1. t \<notin> fst ` set (tests v') \<Longrightarrow> map_of (tests v) t = Some r \<Longrightarrow>
   first_result (vs1 @ v # vs2) t = Some r"
  by (induction vs1) (auto simp add: in_keys_iff split: option.split)

lemma runs_of_uuids:
  "map fst (runs_of vs t) = map uuid (filter (\<lambda>v. t \<in> fst ` set (tests v)) vs)"
proof (induction vs)
  case Nil
  show ?case by (simp add: runs_of_def)
next
  case (Cons v vs)
  have step: "runs_of (v # vs) t =
      (case map_of (tests v) t of None \<Rightarrow> [] | Some r \<Rightarrow> [(uuid v, entry_of r)]) @ runs_of vs t"
    by (simp add: runs_of_def)
  show ?case
  proof (cases "map_of (tests v) t")
    case None
    then have "t \<notin> fst ` set (tests v)" by (simp add: in_keys_iff)
    with None Cons.IH step show ?thesis by simp
  next
    case (Some r)
    then have "t \<in> fst ` set (tests v)" by (simp add: in_keys_iff)
    with Some Cons.IH step show ?thesis by simp
  qed
qed

text \<open>
  C2. For runs with distinct identifiers, every test identifier of any run is a key of
  \<^verbatim>\<open>tests\<close> exactly once; the entry of a test has one per-run record for each run that
  has the test, in the order of the runs, and its tags and name come from the first run
  that has the test.
\<close>

theorem generate_raw_aggregates:
  assumes "wf_input vs"
  shows "distinct (map fst (rep_tests (generate_raw strftime fmt vs)))
    \<and> set (map fst (rep_tests (generate_raw strftime fmt vs))) = (\<Union>v\<in>set vs. fst ` set (tests v))
    \<and> (\<forall>vs1 v vs2 t r.
          vs = vs1 @ v # vs2 \<and> (\<forall>v'\<in>set vs1. t \<notin> fst ` set (tests v')) \<and> map_of (tests v) t = Some r
          \<longrightarrow> (\<exists>e. map_of (rep_tests (generate_raw strftime fmt vs)) t = Some e
                 \<and> tags e = sort_tags (case r_tags r of None \<Rightarrow> [] | Some ts \<Rightarrow> ts)
                 \<and> name e = r_name r
                 \<and> map fst (by_verification e) = map uuid (filter (\<lambda>v. t \<in> fst ` set (tests v)) vs)
                 \<and> distinct (map fst (by_verification e))))"
proof (intro conjI allI impI)
  show "distinct (map fst (rep_tests (generate_raw strftime fmt vs)))"
    by (rule generate_raw_tests_distinct)
  show "set (map fst (rep_tests (generate_raw strftime fmt vs))) = (\<Union>v\<in>set vs. fst ` set (tests v))"
    by (rule generate_raw_tests_keys)
next
  fix vs1 v vs2 t r
  assume h: "vs = vs1 @ v # vs2 \<and> (\<forall>v'\<in>set vs1. t \<notin> fst ` set (tests v')) \<and> map_of (tests v) t = Some r"
  then have fr: "first_result vs t = Some r"
    by (simp add: first_result_split)
  have m: "map_of (rep_tests (generate_raw strftime fmt vs)) t = Some (new_test r (runs_of vs t))"
    using generate_raw_tests [OF assms, of strftime fmt t] fr by simp
  have d: "distinct (map uuid (filter (\<lambda>v. t \<in> fst ` set (tests v)) vs))"
    using assms by (simp add: wf_input_def distinct_map_filter)
  show "\<exists>e. map_of (rep_tests (generate_raw strftime fmt vs)) t = Some e
          \<and> tags e = sort_tags (case r_tags r of None \<Rightarrow> [] | Some ts \<Rightarrow> ts)
          \<and> name e = r_name r
          \<and> map fst (by_verification e) = map uuid (filter (\<lambda>v. t \<in> fst ` set (tests v)) vs)
          \<and> distinct (map fst (by_verification e))"
    using m d by (simp add: new_test_def runs_of_uuids)
qed

lemma example_wf: "wf_input [run1, run2]"
  by (simp add: wf_input_def run1_def run2_def example_run_def)


theorem generate_raw_aggregates_witness:
  "wf_input [run1, run2]
   \<and> map_of (tests run1) ''t1'' = Some (example_result (Some [''foo'', ''id-2'']) 1 None None)
   \<and> (\<exists>e. map_of (rep_tests (generate_raw example_strftime ''f'' [run1, run2])) ''t1'' = Some e
        \<and> tags e = [''id-2'', ''foo'']
        \<and> name e = ''test_foo''
        \<and> map fst (by_verification e) = [''u1'', ''u2''])"
proof -
  let ?r = "example_result (Some [''foo'', ''id-2'']) 1 None None"
  have r: "map_of (tests run1) ''t1'' = Some ?r"
    by (simp add: run1_def example_run_def)
  have pre: "[run1, run2] = [] @ run1 # [run2] \<and> (\<forall>v'\<in>set []. ''t1'' \<notin> fst ` set (tests v'))
      \<and> map_of (tests run1) ''t1'' = Some ?r"
    using r by simp
  from generate_raw_aggregates [OF example_wf, of example_strftime "''f''"]
  have "\<forall>vs1 v vs2 t r.
          [run1, run2] = vs1 @ v # vs2 \<and> (\<forall>v'\<in>set vs1. t \<notin> fst ` set (tests v')) \<and> map_of (tests v) t = Some r
          \<longrightarrow> (\<exists>e. map_of (rep_tests (generate_raw example_strftime ''f'' [run1, run2])) t = Some e
                 \<and> tags e = sort_tags (case r_tags r of None \<Rightarrow> [] | Some ts \<Rightarrow> ts)
                 \<and> name e = r_name r
                 \<and> map fst (by_verification e) = map uuid (filter (\<lambda>v. t \<in> fst ` set (tests v)) [run1, run2])
                 \<and> distinct (map fst (by_verification e)))"
    by (elim conjE)
  from this [rule_format, OF pre]
  obtain e where e: "map_of (rep_tests (generate_raw example_strftime ''f'' [run1, run2])) ''t1'' = Some e"
      "tags e = sort_tags (case r_tags ?r of None \<Rightarrow> [] | Some ts \<Rightarrow> ts)"
      "name e = r_name ?r"
      "map fst (by_verification e) = map uuid (filter (\<lambda>v. ''t1'' \<in> fst ` set (tests v)) [run1, run2])"
    by (elim exE conjE)
  have t: "tags e = [''id-2'', ''foo'']"
    using e(2) by (simp add: example_result_def sort_tags_def sorted_reverse_filter startswith_def)
  have n: "name e = ''test_foo''"
    using e(3) by (simp add: example_result_def)
  have u: "map fst (by_verification e) = [''u1'', ''u2'']"
    using e(4) by (simp add: run1_def run2_def example_run_def)
  from e(1) t n u have "\<exists>e. map_of (rep_tests (generate_raw example_strftime ''f'' [run1, run2])) ''t1'' = Some e
        \<and> tags e = [''id-2'', ''foo'']
        \<and> name e = ''test_foo''
        \<and> map fst (by_verification e) = [''u1'', ''u2'']"
    by (intro exI [of _ e] conjI)
  with example_wf r show ?thesis by (intro conjI)
qed

subsection \<open>The skip pattern\<close>

lemma match_lit_append: "match_lit p (p @ x) = Some x"
  by (simp add: match_lit_def)

lemma not_isdigit_space: "\<not> isdigit (CHR '' '')"
  by (simp add: isdigit_def)

lemma match_space_digit: "isdigit d \<Longrightarrow> match_lit '' '' (d # x) = None"
  using not_isdigit_space by (auto simp add: match_lit_def)

lemma takeWhile_digits:
  "\<forall>d\<in>set ds. isdigit d \<Longrightarrow> takeWhile isdigit (ds @ CHR '' '' # x) = ds"
  by (simp add: takeWhile_tail not_isdigit_space)

lemma dropWhile_digits:
  "\<forall>d\<in>set ds. isdigit d \<Longrightarrow> dropWhile isdigit (ds @ CHR '' '' # x) = CHR '' '' # x"
  by (simp add: dropWhile_append3 not_isdigit_space)

lemma SKIP_RE_match_digits:
  assumes "ds \<noteq> []" and "\<forall>d\<in>set ds. isdigit d"
  shows "SKIP_RE_match (''Skipped until Bug:'' @ ds @ '' is resolved'' @ c # rest) =
           (if c = CHR 0x0A then None else Some ds)"
proof -
  obtain d ds' where ds: "ds = d # ds'" using assms(1) by (cases ds) auto
  with assms(2) have d: "isdigit d" by simp
  have m0: "match_lit ''Skipped until Bug:'' (''Skipped until Bug:'' @ ds @ '' is resolved'' @ c # rest)
      = Some (ds @ '' is resolved'' @ c # rest)"
    by (rule match_lit_append)
  have m1: "match_lit '' '' (ds @ '' is resolved'' @ c # rest) = None"
    using match_space_digit [OF d] by (simp add: ds)
  have tw: "takeWhile isdigit (ds @ '' is resolved'' @ c # rest) = ds"
    using takeWhile_digits [OF assms(2)] by simp
  have dw: "dropWhile isdigit (ds @ '' is resolved'' @ c # rest) = '' is resolved'' @ c # rest"
    using dropWhile_digits [OF assms(2)] by simp
  have m2: "match_lit '' is resolved'' ('' is resolved'' @ c # rest) = Some (c # rest)"
    by (rule match_lit_append)
  show ?thesis
    unfolding SKIP_RE_match_def m0 option.case m1 Let_def tw dw m2 list.case
    using assms(1) by simp
qed

lemma SKIP_RE_match_space_digits:
  assumes "ds \<noteq> []" and "\<forall>d\<in>set ds. isdigit d"
  shows "SKIP_RE_match (''Skipped until Bug:'' @ '' '' @ ds @ '' is resolved'' @ c # rest) =
           (if c = CHR 0x0A then None else Some ds)"
proof -
  have m0: "match_lit ''Skipped until Bug:'' (''Skipped until Bug:'' @ '' '' @ ds @ '' is resolved'' @ c # rest)
      = Some ('' '' @ ds @ '' is resolved'' @ c # rest)"
    by (rule match_lit_append)
  have m1: "match_lit '' '' ('' '' @ ds @ '' is resolved'' @ c # rest) = Some (ds @ '' is resolved'' @ c # rest)"
    by (rule match_lit_append)
  have tw: "takeWhile isdigit (ds @ '' is resolved'' @ c # rest) = ds"
    using takeWhile_digits [OF assms(2)] by simp
  have dw: "dropWhile isdigit (ds @ '' is resolved'' @ c # rest) = '' is resolved'' @ c # rest"
    using dropWhile_digits [OF assms(2)] by simp
  have m2: "match_lit '' is resolved'' ('' is resolved'' @ c # rest) = Some (c # rest)"
    by (rule match_lit_append)
  show ?thesis
    unfolding SKIP_RE_match_def m0 option.case m1 Let_def tw dw m2 list.case
    using assms(1) by simp
qed

lemma SKIP_RE_match_form:
  assumes "sp = [] \<or> sp = '' ''" and "ds \<noteq> []" and "\<forall>d\<in>set ds. isdigit d"
  shows "SKIP_RE_match (''Skipped until Bug:'' @ sp @ ds @ '' is resolved'' @ c # rest) =
           (if c = CHR 0x0A then None else Some ds)"
  using assms(1) SKIP_RE_match_digits [OF assms(2,3), of c rest]
    SKIP_RE_match_space_digits [OF assms(2,3), of c rest]
  by (elim disjE) simp_all

subsection \<open>The substitution\<close>

lemma re_sub_skip:
  "pat \<noteq> [] \<Longrightarrow> \<forall>x\<in>set a. x \<noteq> hd pat \<Longrightarrow> re_sub pat repl (a @ s) = a @ re_sub pat repl s"
  by (induction a) (auto simp add: prefix_Cons)

lemma re_sub_at:
  "pat \<noteq> [] \<Longrightarrow> re_sub pat repl (pat @ s) = repl @ re_sub pat repl s"
  by (cases pat) simp_all

lemma re_sub_leftmost:
  "pat \<noteq> [] \<Longrightarrow> \<forall>i<length a. \<not> prefix pat (drop i (a @ pat @ b)) \<Longrightarrow>
   re_sub pat repl (a @ pat @ b) = a @ repl @ re_sub pat repl b"
proof (induction a)
  case Nil
  then show ?case by (simp add: re_sub_at)
next
  case (Cons x a)
  from Cons.prems(2) have h0: "\<not> prefix pat (x # a @ pat @ b)"
    by (metis append_Cons drop0 length_greater_0_conv list.distinct(1))
  have "\<forall>i<length a. \<not> prefix pat (drop i (a @ pat @ b))"
  proof (intro allI impI)
    fix i assume "i < length a"
    then have "Suc i < length (x # a)" by simp
    with Cons.prems(2) have "\<not> prefix pat (drop (Suc i) ((x # a) @ pat @ b))" by blast
    then show "\<not> prefix pat (drop i (a @ pat @ b))" by simp
  qed
  from Cons.IH [OF Cons.prems(1) this] h0 Cons.prems(1) show ?case by simp
qed

lemma re_sub_none:
  "pat \<noteq> [] \<Longrightarrow> \<forall>i<length s. \<not> prefix pat (drop i s) \<Longrightarrow> re_sub pat repl s = s"
proof (induction s)
  case Nil
  then show ?case by simp
next
  case (Cons x s)
  from Cons.prems(2) have h0: "\<not> prefix pat (x # s)"
    by (metis drop0 length_greater_0_conv list.distinct(1))
  have "\<forall>i<length s. \<not> prefix pat (drop i s)"
  proof (intro allI impI)
    fix i assume "i < length s"
    then have "Suc i < length (x # s)" by simp
    with Cons.prems(2) have "\<not> prefix pat (drop (Suc i) (x # s))" by blast
    then show "\<not> prefix pat (drop i s)" by simp
  qed
  from Cons.IH [OF Cons.prems(1) this] h0 Cons.prems(1) show ?case by simp
qed

lemma no_digit_prefix: "\<forall>x\<in>set ''Skipped until Bug:''. \<not> isdigit x"
  by (simp add: isdigit_def)

lemma no_digit_suffix: "\<forall>x\<in>set '' is resolved''. \<not> isdigit x"
  by (simp add: isdigit_def)

lemma no_digit_dot: "\<not> isdigit (CHR ''.'')"
  by (simp add: isdigit_def)

lemma rewrite_reason_form:
  assumes "sp = [] \<or> sp = '' ''" and "ds \<noteq> []" and "\<forall>d\<in>set ds. isdigit d" and "c \<noteq> CHR 0x0A"
  shows "rewrite_reason (''Skipped until Bug:'' @ sp @ ds @ '' is resolved'' @ c # rest) =
           ''Skipped until Bug:'' @ sp @ LP_BUG_LINK ds @ '' is resolved'' @ re_sub ds (LP_BUG_LINK ds) (c # rest)"
proof -
  let ?s = "''Skipped until Bug:'' @ sp @ ds @ '' is resolved'' @ c # rest"
  have hd: "isdigit (hd ds)" using assms(2,3) by (cases ds) auto
  have m: "SKIP_RE_match ?s = Some ds"
    using SKIP_RE_match_form [OF assms(1,2,3), of c rest] assms(4) by simp
  have ne: "?s \<noteq> []" by simp
  have sp: "\<forall>x\<in>set sp. x \<noteq> hd ds"
    using assms(1) hd not_isdigit_space by auto
  have p: "\<forall>x\<in>set ''Skipped until Bug:''. x \<noteq> hd ds"
    using no_digit_prefix hd by blast
  have q: "\<forall>x\<in>set '' is resolved''. x \<noteq> hd ds"
    using no_digit_suffix hd by blast
  have "rewrite_reason ?s = re_sub ds (LP_BUG_LINK ds) ?s"
    unfolding rewrite_reason_def m using ne by simp
  also have "\<dots> = ''Skipped until Bug:'' @ re_sub ds (LP_BUG_LINK ds) (sp @ ds @ '' is resolved'' @ c # rest)"
    by (rule re_sub_skip [OF assms(2) p])
  also have "re_sub ds (LP_BUG_LINK ds) (sp @ ds @ '' is resolved'' @ c # rest)
      = sp @ re_sub ds (LP_BUG_LINK ds) (ds @ '' is resolved'' @ c # rest)"
    by (rule re_sub_skip [OF assms(2) sp])
  also have "re_sub ds (LP_BUG_LINK ds) (ds @ '' is resolved'' @ c # rest)
      = LP_BUG_LINK ds @ re_sub ds (LP_BUG_LINK ds) ('' is resolved'' @ c # rest)"
    by (rule re_sub_at [OF assms(2)])
  also have "re_sub ds (LP_BUG_LINK ds) ('' is resolved'' @ c # rest)
      = '' is resolved'' @ re_sub ds (LP_BUG_LINK ds) (c # rest)"
    by (rule re_sub_skip [OF assms(2) q])
  finally show ?thesis .
qed

subsection \<open>The per-run record of a result\<close>

lemma runs_of_Cons:
  "runs_of (v # vs) t =
     (case map_of (tests v) t of None \<Rightarrow> [] | Some r \<Rightarrow> [(uuid v, entry_of r)]) @ runs_of vs t"
  by (simp add: runs_of_def)

lemma runs_of_fresh: "u \<notin> uuid ` set vs \<Longrightarrow> map_of (runs_of vs t) u = None"
  using runs_of_keys [of vs t] by (auto simp add: map_of_eq_None_iff)

lemma runs_of_lookup:
  "distinct (map uuid vs) \<Longrightarrow> v \<in> set vs \<Longrightarrow>
   map_of (runs_of vs t) (uuid v) = map_option entry_of (map_of (tests v) t)"
proof (induction vs)
  case Nil
  then show ?case by simp
next
  case (Cons w vs)
  from Cons.prems(1) have d: "distinct (map uuid vs)" and f: "uuid w \<notin> uuid ` set vs" by auto
  show ?case
  proof (cases "v = w")
    case True
    with f show ?thesis
      by (cases "map_of (tests w) t") (simp_all add: runs_of_Cons runs_of_fresh)
  next
    case False
    with Cons.prems(2) have v: "v \<in> set vs" by simp
    with f have "uuid v \<noteq> uuid w" by (metis imageI)
    with Cons.IH [OF d v] show ?thesis
      by (cases "map_of (tests w) t") (simp_all add: runs_of_Cons)
  qed
qed

lemma first_result_Some:
  "v \<in> set vs \<Longrightarrow> map_of (tests v) t = Some r \<Longrightarrow> \<exists>r0. first_result vs t = Some r0"
  by (induction vs) (auto split: option.split)

lemma generate_raw_entry:
  assumes "wf_input vs" and "v \<in> set vs" and "map_of (tests v) t = Some r"
  shows "\<exists>T. map_of (rep_tests (generate_raw strftime fmt vs)) t = Some T
           \<and> map_of (by_verification T) (uuid v) = Some (entry_of r)"
proof -
  from first_result_Some [OF assms(2,3)] obtain r0 where r0: "first_result vs t = Some r0" ..
  have "map_of (rep_tests (generate_raw strftime fmt vs)) t = Some (new_test r0 (runs_of vs t))"
    using generate_raw_tests [OF assms(1), of strftime fmt t] r0 by simp
  moreover have "map_of (runs_of vs t) (uuid v) = Some (entry_of r)"
    using runs_of_lookup [of vs v t] assms by (simp add: wf_input_def)
  ultimately show ?thesis by (simp add: new_test_def)
qed

lemma entry_of_details:
  "e_details (entry_of r) =
     (let reason = rewrite_reason (get_str (r_reason r));
          traceback = get_str (r_traceback r);
          text = reason @ (if reason \<noteq> [] \<and> traceback \<noteq> [] then ''\<newline>\<newline>'' else [])
                 @ strip traceback
      in if text = [] then NoKey else Text text)"
  by (simp add: entry_of_def details_of_def Let_def)

text \<open>
  C4. The details of a per-run record are the reason (after the link rewrite), then a
  blank line exactly when this reason and the traceback as given, before it is
  stripped, are both non-empty, then the stripped traceback; the record has no details
  key when this text is empty.
\<close>

theorem details_reason_blank_line_traceback:
  assumes "wf_input vs" and "v \<in> set vs" and "map_of (tests v) t = Some r"
  shows "\<exists>T e. map_of (rep_tests (generate_raw strftime fmt vs)) t = Some T
           \<and> map_of (by_verification T) (uuid v) = Some e
           \<and> e_details e =
               (let reason = rewrite_reason (get_str (r_reason r));
                    traceback = get_str (r_traceback r);
                    text = reason
                           @ (if reason \<noteq> [] \<and> traceback \<noteq> [] then ''\<newline>\<newline>'' else [])
                           @ strip traceback
                in if text = [] then NoKey else Text text)"
proof -
  from generate_raw_entry [OF assms, of strftime fmt]
  obtain T where "map_of (rep_tests (generate_raw strftime fmt vs)) t = Some T"
    and "map_of (by_verification T) (uuid v) = Some (entry_of r)" by blast
  then show ?thesis using entry_of_details [of r] by blast
qed

lemma flaky_wf: "wf_input [flaky_run tb]"
  by (simp add: wf_input_def flaky_run_def example_run_def)

lemma strip_trace: "strip ''Trace\<newline>line2''
                    = ''Trace\<newline>line2''"
  by (simp add: strip_def isspace_def)

lemma flaky_not_skip: "rewrite_reason ''flaky'' = ''flaky''"
  by (simp add: rewrite_reason_def SKIP_RE_match_def match_lit_def)

theorem details_reason_blank_line_traceback_witness:
  "\<exists>T e. map_of (rep_tests (generate_raw example_strftime ''f''
              [flaky_run ''Trace\<newline>line2''])) ''t1'' = Some T
         \<and> map_of (by_verification T) ''u1'' = Some e
         \<and> e_details e = Text (''flaky'' @ ''\<newline>\<newline>'' @
              ''Trace\<newline>line2'')"
proof -
  let ?tb = "''Trace\<newline>line2''"
  let ?r = "example_result None 1 (Some ''flaky'') (Some ?tb)"
  have v: "flaky_run ?tb \<in> set [flaky_run ?tb]" by simp
  have m: "map_of (tests (flaky_run ?tb)) ''t1'' = Some ?r"
    by (simp add: flaky_run_def example_run_def)
  have u: "uuid (flaky_run ?tb) = ''u1''"
    by (simp add: flaky_run_def example_run_def)
  have d: "(let reason = rewrite_reason (get_str (r_reason ?r));
                traceback = get_str (r_traceback ?r);
                text = reason
                       @ (if reason \<noteq> [] \<and> traceback \<noteq> [] then ''\<newline>\<newline>'' else [])
                       @ strip traceback
            in if text = [] then NoKey else Text text)
           = Text (''flaky'' @ ''\<newline>\<newline>'' @ ?tb)"
    unfolding Let_def by (simp add: example_result_def get_str_def flaky_not_skip strip_trace)
  from details_reason_blank_line_traceback [OF flaky_wf v m, of example_strftime "''f''"]
  show ?thesis unfolding u d .
qed

theorem details_separator_counterexample:
  "strip '' '' = []
   \<and> map_option by_verification
         (map_of (rep_tests (generate_raw example_strftime ''f'' [flaky_run '' ''])) ''t1'')
       = Some [(''u1'', \<lparr>e_status = ''success'', e_duration = PyFloat 1,
                         e_details = Text ''flaky\<newline>\<newline>''\<rparr>)]"
  by code_simp

subsection \<open>The bug link\<close>

lemma re_sub_no_digit_tail:
  assumes "ds \<noteq> []" and "\<forall>d\<in>set ds. isdigit d"
  shows "re_sub ds repl ''.'' = ''.''"
proof -
  have "isdigit (hd ds)" using assms by (cases ds) auto
  with no_digit_dot have "\<forall>x\<in>set ''.''. x \<noteq> hd ds" by auto
  from re_sub_skip [OF assms(1) this, of repl "[]"] assms(1) show ?thesis by simp
qed

lemma rewrite_reason_exact:
  assumes "sp = [] \<or> sp = '' ''" and "ds \<noteq> []" and "\<forall>d\<in>set ds. isdigit d"
  shows "rewrite_reason (''Skipped until Bug:'' @ sp @ ds @ '' is resolved.'') =
           ''Skipped until Bug:'' @ sp @ ''https://launchpad.net/bugs/'' @ ds @ '' is resolved.''"
proof -
  have "rewrite_reason (''Skipped until Bug:'' @ sp @ ds @ '' is resolved'' @ CHR ''.'' # []) =
          ''Skipped until Bug:'' @ sp @ LP_BUG_LINK ds @ '' is resolved''
            @ re_sub ds (LP_BUG_LINK ds) (CHR ''.'' # [])"
    by (rule rewrite_reason_form [OF assms]) simp
  then show ?thesis
    using re_sub_no_digit_tail [OF assms(2,3), of "LP_BUG_LINK ds"]
    by (simp add: LP_BUG_LINK_def)
qed

text \<open>
  C5. A reason of the form \<^verbatim>\<open>Skipped until Bug: <digits> is resolved.\<close> (the space
  before the digits is optional) is rewritten in place: the details of the per-run
  record are the same sentence with \<^verbatim>\<open>https://launchpad.net/bugs/<digits>\<close> where the
  digits stood, followed by the traceback part. The reason
  \<^verbatim>\<open>Skipped until Bug: 12345 is resolved.\<close> gives
  \<^verbatim>\<open>Skipped until Bug: https://launchpad.net/bugs/12345 is resolved.\<close>
\<close>

theorem skip_reason_bug_link:
  assumes "wf_input vs" and "v \<in> set vs" and "map_of (tests v) t = Some r"
    and "r_reason r = Some (''Skipped until Bug:'' @ sp @ ds @ '' is resolved.'')"
    and "sp = [] \<or> sp = '' ''" and "ds \<noteq> []" and "\<forall>d\<in>set ds. isdigit d"
  shows "\<exists>T e. map_of (rep_tests (generate_raw strftime fmt vs)) t = Some T
           \<and> map_of (by_verification T) (uuid v) = Some e
           \<and> e_details e =
               Text (''Skipped until Bug:'' @ sp @ ''https://launchpad.net/bugs/'' @ ds @ '' is resolved.''
                     @ (if get_str (r_traceback r) \<noteq> [] then ''\<newline>\<newline>'' else [])
                     @ strip (get_str (r_traceback r)))"
proof -
  from generate_raw_entry [OF assms(1,2,3), of strftime fmt]
  obtain T where T: "map_of (rep_tests (generate_raw strftime fmt vs)) t = Some T"
    and e: "map_of (by_verification T) (uuid v) = Some (entry_of r)" by blast
  have "e_details (entry_of r) =
      Text (''Skipped until Bug:'' @ sp @ ''https://launchpad.net/bugs/'' @ ds @ '' is resolved.''
            @ (if get_str (r_traceback r) \<noteq> [] then ''\<newline>\<newline>'' else [])
            @ strip (get_str (r_traceback r)))"
    unfolding entry_of_details Let_def
    using rewrite_reason_exact [OF assms(5,6,7)] assms(4)
    by (simp add: get_str_def)
  with T e show ?thesis by blast
qed

lemma skipped_wf: "wf_input [skipped_run reason]"
  by (simp add: wf_input_def skipped_run_def example_run_def)

theorem skip_reason_bug_link_witness:
  "\<exists>T e. map_of (rep_tests (generate_raw example_strftime ''f''
              [skipped_run ''Skipped until Bug: 12345 is resolved.''])) ''t1'' = Some T
         \<and> map_of (by_verification T) ''u1'' = Some e
         \<and> e_details e = Text ''Skipped until Bug: https://launchpad.net/bugs/12345 is resolved.''"
proof -
  let ?reason = "''Skipped until Bug: 12345 is resolved.''"
  let ?r = "example_result None 0 (Some ?reason) None"
  have v: "skipped_run ?reason \<in> set [skipped_run ?reason]" by simp
  have m: "map_of (tests (skipped_run ?reason)) ''t1'' = Some ?r"
    by (simp add: skipped_run_def example_run_def)
  have u: "uuid (skipped_run ?reason) = ''u1''"
    by (simp add: skipped_run_def example_run_def)
  have f: "r_reason ?r = Some (''Skipped until Bug:'' @ '' '' @ ''12345'' @ '' is resolved.'')"
    by (simp add: example_result_def)
  have sp: "'' '' = [] \<or> '' '' = '' ''" by simp
  have ne: "''12345'' \<noteq> []" by simp
  have dg: "\<forall>d\<in>set ''12345''. isdigit d" by (simp add: isdigit_def)
  have tb: "get_str (r_traceback ?r) = []" by (simp add: example_result_def get_str_def)
  have st: "strip [] = []" by (simp add: strip_def)
  from skip_reason_bug_link [OF skipped_wf v m f sp ne dg, of example_strftime "''f''"]
  show ?thesis unfolding u tb st by simp
qed

text \<open>
  C10. When the reason starts with \<^verbatim>\<open>Skipped until Bug:\<close>, an optional space, digits,
  \<^verbatim>\<open> is resolved\<close> and one more character that is not a newline, whatever follows, the
  digits are replaced by the link where they follow \<^verbatim>\<open>Bug:\<close>, and the rest of the
  reason is rewritten by the same substitution. The substitution scans from the left:
  it replaces the leftmost occurrence of the digits and goes on behind it, so that it
  replaces the occurrences that do not overlap an earlier one; a text without an
  occurrence stays as it is.
\<close>

theorem skip_rewrite_every_occurrence:
  assumes "sp = [] \<or> sp = '' ''" and "ds \<noteq> []" and "\<forall>d\<in>set ds. isdigit d" and "c \<noteq> CHR 0x0A"
  shows "rewrite_reason (''Skipped until Bug:'' @ sp @ ds @ '' is resolved'' @ c # rest) =
           ''Skipped until Bug:'' @ sp @ LP_BUG_LINK ds @ '' is resolved''
             @ re_sub ds (LP_BUG_LINK ds) (c # rest)
    \<and> (\<forall>a b. (\<forall>i<length a. \<not> prefix ds (drop i (a @ ds @ b))) \<longrightarrow>
          re_sub ds (LP_BUG_LINK ds) (a @ ds @ b) = a @ LP_BUG_LINK ds @ re_sub ds (LP_BUG_LINK ds) b)
    \<and> (\<forall>s. (\<forall>i<length s. \<not> prefix ds (drop i s)) \<longrightarrow> re_sub ds (LP_BUG_LINK ds) s = s)"
  using rewrite_reason_form [OF assms] re_sub_leftmost [OF assms(2)] re_sub_none [OF assms(2)]
  by blast

lemma no_occurrence_before:
  assumes "pat \<noteq> []" and "\<forall>x\<in>set a. x \<noteq> hd pat"
  shows "\<forall>i<length a. \<not> prefix pat (drop i (a @ s))"
proof (intro allI impI notI)
  fix i assume i: "i < length a" and p: "prefix pat (drop i (a @ s))"
  from i have "drop i (a @ s) = a ! i # drop (Suc i) (a @ s)"
    by (simp add: Cons_nth_drop_Suc nth_append)
  with p assms(1) have "hd pat = a ! i" by (cases pat) (auto simp add: prefix_Cons)
  with i assms(2) show False by (metis nth_mem)
qed

theorem skip_rewrite_every_occurrence_witness:
  "rewrite_reason ''Skipped until Bug:7 is resolved, see 7 and 17'' =
     ''Skipped until Bug:https://launchpad.net/bugs/7 is resolved, see https://launchpad.net/bugs/7 and 1https://launchpad.net/bugs/7''"
proof -
  let ?l = "LP_BUG_LINK ''7''"
  have sp: "[] = [] \<or> [] = '' ''" by simp
  have ne: "''7'' \<noteq> []" by simp
  have dg: "\<forall>d\<in>set ''7''. isdigit d" by (simp add: isdigit_def)
  have c: "CHR '','' \<noteq> CHR 0x0A" by simp
  note th = skip_rewrite_every_occurrence [OF sp ne dg c, of "'' see 7 and 17''"]
  from th have first: "rewrite_reason (''Skipped until Bug:'' @ [] @ ''7'' @ '' is resolved'' @ CHR '','' # '' see 7 and 17'') =
           ''Skipped until Bug:'' @ [] @ ?l @ '' is resolved'' @ re_sub ''7'' ?l (CHR '','' # '' see 7 and 17'')"
    by (elim conjE)
  from th have left: "\<And>a b. \<forall>i<length a. \<not> prefix ''7'' (drop i (a @ ''7'' @ b)) \<Longrightarrow>
          re_sub ''7'' ?l (a @ ''7'' @ b) = a @ ?l @ re_sub ''7'' ?l b"
    by blast
  from th have none: "\<And>s. \<forall>i<length s. \<not> prefix ''7'' (drop i s) \<Longrightarrow> re_sub ''7'' ?l s = s"
    by blast
  have o1: "\<forall>i<length '', see ''. \<not> prefix ''7'' (drop i ('', see '' @ ''7'' @ '' and 17''))"
    by (rule no_occurrence_before) simp_all
  have o2: "\<forall>i<length '' and 1''. \<not> prefix ''7'' (drop i ('' and 1'' @ ''7'' @ []))"
    by (rule no_occurrence_before) simp_all
  have o3: "\<forall>i<length ([]::string). \<not> prefix ''7'' (drop i [])" by simp
  have "re_sub ''7'' ?l ('', see '' @ ''7'' @ '' and 17'') = '', see '' @ ?l @ re_sub ''7'' ?l '' and 17''"
    by (rule left [OF o1])
  moreover have "re_sub ''7'' ?l ('' and 1'' @ ''7'' @ []) = '' and 1'' @ ?l @ re_sub ''7'' ?l []"
    by (rule left [OF o2])
  moreover have "re_sub ''7'' ?l [] = []" by (rule none [OF o3])
  ultimately have "re_sub ''7'' ?l (CHR '','' # '' see 7 and 17'') = '', see '' @ ?l @ '' and 1'' @ ?l"
    by simp
  with first show ?thesis by (simp add: LP_BUG_LINK_def)
qed

theorem skip_dot_newline_counterexample:
  "rewrite_reason ''Skipped until Bug: 1 is resolved\<newline>'' = ''Skipped until Bug: 1 is resolved\<newline>''
   \<and> rewrite_reason ''Skipped until Bug: 1 is resolved.'' = ''Skipped until Bug: https://launchpad.net/bugs/1 is resolved.''"
  by code_simp

section \<open>Properties of the formatters\<close>

subsection \<open>The returned dictionary\<close>

text \<open>
  C6. The JSON reporter returns, without a destination (\<^verbatim>\<open>None\<close>, or the empty string,
  which Python takes for false), the dictionary with the one key \<^verbatim>\<open>print\<close> and the
  report as its value; with a destination it returns the dictionary with the keys
  \<^verbatim>\<open>files\<close>, mapping this destination to the report, and \<^verbatim>\<open>open\<close>, this same
  destination; its result never has both \<^verbatim>\<open>print\<close> and \<^verbatim>\<open>files\<close>. The HTML reporter and
  the static HTML reporter return neither dictionary: for every input and every
  destination the call ends at line 159 with the \<^verbatim>\<open>TypeError\<close> that \<^verbatim>\<open>json.dumps\<close> raises
  on the view of keys under \<^verbatim>\<open>uuids\<close>.
\<close>

theorem json_print_or_files_html_type_error:
  fixes strftime :: "'t \<Rightarrow> string \<Rightarrow> string" and vs :: "('t, 'a, test_result) verification list"
  shows "(\<forall>G R. G = JSONReporter_generate strftime dumps vs
                 \<and> R = dumps (generate_raw strftime ''%Y-%m-%dT%H:%M:%S%z'' vs)
          \<longrightarrow> G None = [(''print'', OStr R)]
            \<and> G (Some []) = [(''print'', OStr R)]
            \<and> (\<forall>d. d \<noteq> [] \<longrightarrow>
                  G (Some d) = [(''files'', OFiles [(d, R)]), (''open'', OStr d)])
            \<and> (\<forall>dest. \<not> (''print'' \<in> fst ` set (G dest) \<and> ''files'' \<in> fst ` set (G dest))))
       \<and> c_uuids (html_context strftime fmt vs)
           = KeysView (map fst (verifications (generate_raw strftime ''%Y-%m-%d %H:%M:%S'' vs)))
       \<and> json_dumps enc (html_context strftime fmt vs) = Inl TypeError
       \<and> HTMLReporter_generate strftime fmt enc render vs output_destination = Inl TypeError
       \<and> HTMLStaticReporter_generate strftime fmt enc render vs output_destination = Inl TypeError"
proof -
  have u: "c_uuids (html_context strftime fmt vs)
      = KeysView (map fst (verifications (generate_raw strftime ''%Y-%m-%d %H:%M:%S'' vs)))"
    by (simp add: html_context_def Let_def split_beta)
  then have d: "json_dumps enc (html_context strftime fmt vs) = Inl TypeError"
    by (simp add: json_dumps_def)
  have j: "\<forall>G R. G = JSONReporter_generate strftime dumps vs
                 \<and> R = dumps (generate_raw strftime ''%Y-%m-%dT%H:%M:%S%z'' vs)
          \<longrightarrow> G None = [(''print'', OStr R)]
            \<and> G (Some []) = [(''print'', OStr R)]
            \<and> (\<forall>d. d \<noteq> [] \<longrightarrow>
                  G (Some d) = [(''files'', OFiles [(d, R)]), (''open'', OStr d)])
            \<and> (\<forall>dest. \<not> (''print'' \<in> fst ` set (G dest) \<and> ''files'' \<in> fst ` set (G dest)))"
    by (auto simp add: JSONReporter_generate_def truthy_def Let_def split: option.splits)
  have h: "HTMLReporter_generate strftime fmt enc render vs output_destination = Inl TypeError"
    by (simp add: HTMLReporter_generate_def HTMLReporter_generate_with_def d)
  have st: "HTMLStaticReporter_generate strftime fmt enc render vs output_destination = Inl TypeError"
    by (simp add: HTMLStaticReporter_generate_def HTMLReporter_generate_with_def d)
  from j u d h st show ?thesis by (intro conjI)
qed

theorem json_print_or_files_html_type_error_witness:
  "JSONReporter_generate example_strftime example_dumps [run1, run2] None
     = [(''print'', OStr ''t1t2'')]
   \<and> JSONReporter_generate example_strftime example_dumps [run1, run2] (Some ''out.json'')
     = [(''files'', OFiles [(''out.json'', ''t1t2'')]), (''open'', OStr ''out.json'')]
   \<and> c_uuids (html_context example_strftime float_str [run1, run2]) = KeysView [''u1'', ''u2'']
   \<and> HTMLReporter_generate example_strftime float_str example_enc example_render [run1, run2] None
     = Inl TypeError
   \<and> HTMLStaticReporter_generate example_strftime float_str example_enc example_render [run1, run2]
       (Some ''out.html'')
     = Inl TypeError"
proof -
  let ?G = "JSONReporter_generate example_strftime example_dumps [run1, run2]"
  let ?R = "example_dumps (generate_raw example_strftime ''%Y-%m-%dT%H:%M:%S%z'' [run1, run2])"
  have R: "?R = ''t1t2''" by code_simp
  have K: "map fst (verifications (generate_raw example_strftime ''%Y-%m-%d %H:%M:%S'' [run1, run2]))
      = [''u1'', ''u2'']" by code_simp
  have ne: "''out.json'' \<noteq> []" by simp
  note T = json_print_or_files_html_type_error [where strftime = example_strftime
      and dumps = example_dumps and vs = "[run1, run2]" and fmt = float_str and enc = example_enc
      and render = example_render]
  from T [of None]
  have a: "?G None = [(''print'', OStr ?R)]
      \<and> (\<forall>d. d \<noteq> [] \<longrightarrow> ?G (Some d) = [(''files'', OFiles [(d, ?R)]), (''open'', OStr d)])"
    by blast
  from T [of None]
  have b: "c_uuids (html_context example_strftime float_str [run1, run2]) = KeysView [''u1'', ''u2'']"
      "HTMLReporter_generate example_strftime float_str example_enc example_render [run1, run2] None
         = Inl TypeError"
    unfolding K by blast+
  from T [of "Some ''out.html''"]
  have c: "HTMLStaticReporter_generate example_strftime float_str example_enc example_render
        [run1, run2] (Some ''out.html'') = Inl TypeError"
    by blast
  from a ne b c show ?thesis unfolding R by blast
qed

subsection \<open>The details flag\<close>

lemma mark_details_fst:
  "fst (mark_details bv h) =
     map (\<lambda>x. (fst x, if e_details (snd x) = NoKey then (snd x)\<lparr>e_details := PyNone\<rparr> else snd x)) bv"
  by (induction bv h rule: mark_details.induct) (simp_all add: split_beta)

lemma mark_details_snd:
  "snd (mark_details bv h) = (h \<or> (\<exists>x\<in>set bv. e_details (snd x) \<noteq> NoKey))"
  by (induction bv h rule: mark_details.induct) (auto simp add: split_beta)

subsection \<open>The duration loop\<close>

lemma py_float_zero: "py_float (PyStr ''0'') = 0"
  by (simp add: digits_value_def)

lemma set_duration_map_of:
  "map_of (set_duration u d bv) u' =
     (if u' = u then map_option (\<lambda>e. e\<lparr>e_duration := d\<rparr>) (map_of bv u) else map_of bv u')"
  by (cases "map_of bv u") (simp_all add: set_duration_def map_of_map_entry)

lemma set_duration_twice: "set_duration u d (set_duration u d' bv) = set_duration u d bv"
  by (simp add: set_duration_def map_entry_map_entry)

lemma duration_step_absent:
  "map_of bv u = None \<Longrightarrow> duration_step fmt u (ds, bv) = (ds, bv)"
  by (simp add: duration_step_def)

lemma duration_step_first:
  "map_of bv u = Some e \<Longrightarrow> e_duration e = PyFloat r \<Longrightarrow>
   duration_step fmt u ([], bv) =
     ([adjusted r], if r < 0.001 then set_duration u (PyStr []) bv else bv)"
  by (simp add: duration_step_def adjusted_def Let_def)

lemma duration_step_later:
  "ds \<noteq> [] \<Longrightarrow> map_of bv u = Some e \<Longrightarrow> e_duration e = PyFloat r \<Longrightarrow>
   duration_step fmt u (ds, bv) = (ds @ [adjusted r], set_duration u (later_field fmt (hd ds) r) bv)"
  by (simp add: duration_step_def adjusted_def later_field_def Let_def set_duration_twice
      py_float_zero)

lemma duration_step_other:
  "u \<noteq> u' \<Longrightarrow> map_of (snd (duration_step fmt u' st)) u = map_of (snd st) u"
  by (cases st) (simp add: duration_step_def Let_def set_duration_map_of split: option.split)

lemma duration_step_hd:
  "fst st \<noteq> [] \<Longrightarrow>
   fst (duration_step fmt u st) \<noteq> [] \<and> hd (fst (duration_step fmt u st)) = hd (fst st)"
  by (cases st) (simp add: duration_step_def Let_def butlast_append split: option.split)

lemma fold_duration_absent:
  "\<forall>u\<in>set us. map_of bv u = None \<Longrightarrow> fold (duration_step fmt) us (ds, bv) = (ds, bv)"
  by (induction us) (simp_all add: duration_step_absent)

lemma fold_duration_other:
  "u \<notin> set us \<Longrightarrow> map_of (snd (fold (duration_step fmt) us st)) u = map_of (snd st) u"
  by (induction us arbitrary: st) (simp_all add: duration_step_other)

lemma fold_duration_later:
  "distinct us \<Longrightarrow> u \<in> set us \<Longrightarrow> ds \<noteq> [] \<Longrightarrow> map_of bv u = Some e \<Longrightarrow>
   e_duration e = PyFloat r \<Longrightarrow>
   map_of (snd (fold (duration_step fmt) us (ds, bv))) u =
     Some (e\<lparr>e_duration := later_field fmt (hd ds) r\<rparr>)"
proof (induction us arbitrary: ds bv)
  case Nil
  then show ?case by simp
next
  case (Cons x us)
  obtain ds' bv' where st: "duration_step fmt x (ds, bv) = (ds', bv')"
    by (cases "duration_step fmt x (ds, bv)")
  from duration_step_hd [of "(ds, bv)" fmt x] Cons.prems(3) st
  have ne: "ds' \<noteq> []" and hd: "hd ds' = hd ds" by simp_all
  show ?case
  proof (cases "x = u")
    case True
    with Cons.prems(1) have nin: "u \<notin> set us" by simp
    from duration_step_later [OF Cons.prems(3,4,5), of fmt] st True
    have "bv' = set_duration u (later_field fmt (hd ds) r) bv" by simp
    with Cons.prems(4)
    have "map_of bv' u = Some (e\<lparr>e_duration := later_field fmt (hd ds) r\<rparr>)"
      by (simp add: set_duration_map_of)
    with fold_duration_other [OF nin, of fmt "(ds', bv')"] st show ?thesis by simp
  next
    case False
    with Cons.prems(2) have u: "u \<in> set us" by simp
    from Cons.prems(1) have d: "distinct us" by simp
    from False have "u \<noteq> x" by simp
    from duration_step_other [OF this, of fmt "(ds, bv)"] st Cons.prems(4)
    have m: "map_of bv' u = Some e" by simp
    from Cons.IH [OF d u ne m Cons.prems(5)] st hd show ?thesis by simp
  qed
qed

lemma durations_first_run:
  assumes "distinct (us1 @ u1 # us2)" and "\<forall>u\<in>set us1. map_of bv u = None"
    and "map_of bv u1 = Some e1" and "e_duration e1 = PyFloat r1"
  shows "map_of (snd (fold (duration_step fmt) (us1 @ u1 # us2) ([], bv))) u1 =
           Some (e1\<lparr>e_duration := (if r1 < 0.001 then PyStr [] else PyFloat r1)\<rparr>)"
proof -
  let ?bv1 = "if r1 < 0.001 then set_duration u1 (PyStr []) bv else bv"
  from assms(1) have nin: "u1 \<notin> set us2" by simp
  have f: "fold (duration_step fmt) (us1 @ u1 # us2) ([], bv) =
      fold (duration_step fmt) us2 ([adjusted r1], ?bv1)"
    by (simp add: fold_duration_absent [OF assms(2)] duration_step_first [OF assms(3,4)])
  have "map_of ?bv1 u1 = Some (e1\<lparr>e_duration := (if r1 < 0.001 then PyStr [] else PyFloat r1)\<rparr>)"
    using assms(3,4) by (simp add: set_duration_map_of)
  with fold_duration_other [OF nin, of fmt "([adjusted r1], ?bv1)"] f show ?thesis by simp
qed

lemma durations_later_run:
  assumes "distinct (us1 @ u1 # us2)" and "\<forall>u\<in>set us1. map_of bv u = None"
    and "map_of bv u1 = Some e1" and "e_duration e1 = PyFloat r1"
    and "u \<in> set us2" and "map_of bv u = Some e" and "e_duration e = PyFloat r"
  shows "map_of (snd (fold (duration_step fmt) (us1 @ u1 # us2) ([], bv))) u =
           Some (e\<lparr>e_duration := later_field fmt (adjusted r1) r\<rparr>)"
proof -
  let ?bv1 = "if r1 < 0.001 then set_duration u1 (PyStr []) bv else bv"
  from assms(1,5) have d: "distinct us2" and neq: "u \<noteq> u1" by auto
  have f: "fold (duration_step fmt) (us1 @ u1 # us2) ([], bv) =
      fold (duration_step fmt) us2 ([adjusted r1], ?bv1)"
    by (simp add: fold_duration_absent [OF assms(2)] duration_step_first [OF assms(3,4)])
  have m: "map_of ?bv1 u = Some e"
    using assms(6) neq by (simp add: set_duration_map_of)
  have ne: "[adjusted r1] \<noteq> []" by simp
  from fold_duration_later [OF d assms(5) ne m assms(7), of fmt] f show ?thesis by simp
qed

lemma fold_duration_details:
  "map (\<lambda>x. (fst x, e_details (snd x))) (snd (fold (duration_step fmt) us st)) =
   map (\<lambda>x. (fst x, e_details (snd x))) (snd st)"
proof (induction us arbitrary: st)
  case Nil
  show ?case by simp
next
  case (Cons u us)
  have k: "\<And>d bv. map (\<lambda>x. (fst x, e_details (snd x))) (set_duration u d bv) =
      map (\<lambda>x. (fst x, e_details (snd x))) bv"
  proof -
    fix d bv show "map (\<lambda>x. (fst x, e_details (snd x))) (set_duration u d bv) =
      map (\<lambda>x. (fst x, e_details (snd x))) bv"
      by (induction bv) (auto simp add: set_duration_def)
  qed
  have "map (\<lambda>x. (fst x, e_details (snd x))) (snd (duration_step fmt u st)) =
      map (\<lambda>x. (fst x, e_details (snd x))) (snd st)"
    by (cases st) (simp add: duration_step_def Let_def k split: option.split)
  with Cons.IH [of "duration_step fmt u st"] show ?case by simp
qed

subsection \<open>The loop over the tests\<close>

lemma html_test_fst:
  "fst (html_test fmt us T) =
     T\<lparr>by_verification :=
          snd (fold (duration_step fmt) us ([], fst (mark_details (by_verification T) False))),
       has_details := Some (snd (mark_details (by_verification T) False))\<rparr>"
  by (simp add: html_test_def split_beta)

lemma html_tests_fst:
  "fst (html_tests fmt us Ts flag) = map (\<lambda>x. (fst x, fst (html_test fmt us (snd x)))) Ts"
proof (induction Ts arbitrary: flag)
  case Nil
  show ?case by simp
next
  case (Cons x Ts)
  obtain tid T where x: "x = (tid, T)" by (cases x)
  show ?case by (simp add: x split_beta Let_def Cons.IH)
qed

lemma map_of_map_values:
  "map_of (map (\<lambda>x. (fst x, f (snd x))) xs) k = map_option f (map_of xs k)"
  by (induction xs) auto

lemma html_context_tests:
  assumes "distinct (map uuid vs)"
  shows "map_of (c_tests (html_context strftime fmt vs)) t =
     map_option (\<lambda>T. fst (html_test fmt (map uuid vs) T))
       (map_of (rep_tests (generate_raw strftime ''%Y-%m-%d %H:%M:%S'' vs)) t)"
proof -
  have "c_tests (html_context strftime fmt vs) =
      map (\<lambda>x. (fst x, fst (html_test fmt (map uuid vs) (snd x))))
        (rep_tests (generate_raw strftime ''%Y-%m-%d %H:%M:%S'' vs))"
    using assms
    by (simp add: html_context_def Let_def split_beta html_tests_fst
        generate_raw_verifications_keys)
  then show ?thesis
    using map_of_map_values [of "\<lambda>T. fst (html_test fmt (map uuid vs) T)"
        "rep_tests (generate_raw strftime ''%Y-%m-%d %H:%M:%S'' vs)" t]
    by simp
qed

subsection \<open>The fields of the HTML report\<close>

lemma unmarked_duration:
  "e_duration (if e_details e = NoKey then e\<lparr>e_details := PyNone\<rparr> else e) = e_duration e"
  by simp

lemma duration_select_update: "e_duration (x\<lparr>e_duration := v\<rparr>) = v"
  by simp

lemma html_duration_fields:
  assumes wf: "wf_input vs" and split: "vs = vs1 @ v1 # vs2"
    and none: "\<forall>v'\<in>set vs1. t \<notin> fst ` set (tests v')"
    and m1: "map_of (tests v1) t = Some r1"
  shows "\<exists>T e1. map_of (c_tests (html_context strftime fmt vs)) t = Some T
           \<and> map_of (by_verification T) (uuid v1) = Some e1
           \<and> e_duration e1 = (if r_duration r1 < 0.001 then PyStr [] else PyFloat (r_duration r1))
           \<and> (\<forall>v r. v \<in> set vs2 \<and> map_of (tests v) t = Some r \<longrightarrow>
                 (\<exists>e. map_of (by_verification T) (uuid v) = Some e
                    \<and> e_duration e = later_field fmt (adjusted (r_duration r1)) (r_duration r)))"
proof -
  let ?g = "\<lambda>e. if e_details e = NoKey then e\<lparr>e_details := PyNone\<rparr> else e"
  let ?Traw = "new_test r1 (runs_of vs t)"
  let ?marked = "fst (mark_details (runs_of vs t) False)"
  let ?us = "map uuid vs"
  let ?T = "fst (html_test fmt ?us ?Traw)"
  from wf have d: "distinct ?us" by (simp add: wf_input_def)
  have us: "?us = map uuid vs1 @ uuid v1 # map uuid vs2" by (simp add: split)
  from d have d': "distinct (map uuid vs1 @ uuid v1 # map uuid vs2)" by (simp only: us)
  have fr: "first_result vs t = Some r1"
    unfolding split by (rule first_result_split [OF none m1])
  have raw: "map_of (rep_tests (generate_raw strftime ''%Y-%m-%d %H:%M:%S'' vs)) t = Some ?Traw"
    using generate_raw_tests [OF wf, of strftime "''%Y-%m-%d %H:%M:%S''" t] fr by simp
  have T: "map_of (c_tests (html_context strftime fmt vs)) t = Some ?T"
    using html_context_tests [OF d, of strftime fmt t] raw by simp
  have "by_verification ?T = snd (fold (duration_step fmt) ?us ([], ?marked))"
    by (simp add: html_test_fst new_test_def)
  then have bvT: "by_verification ?T =
      snd (fold (duration_step fmt) (map uuid vs1 @ uuid v1 # map uuid vs2) ([], ?marked))"
    by (simp only: us)
  have look: "\<And>u. map_of ?marked u = map_option ?g (map_of (runs_of vs t) u)"
    unfolding mark_details_fst by (rule map_of_map_values)
  have at: "\<And>v. v \<in> set vs \<Longrightarrow> map_of ?marked (uuid v) = map_option ?g (map_option entry_of (map_of (tests v) t))"
    using look runs_of_lookup [OF d] by simp
  have absent: "\<forall>u\<in>set (map uuid vs1). map_of ?marked u = None"
  proof
    fix u assume "u \<in> set (map uuid vs1)"
    then obtain v' where v': "v' \<in> set vs1" and u: "u = uuid v'" by auto
    from v' none have "map_of (tests v') t = None" by (simp add: map_of_eq_None_iff)
    moreover from v' have "v' \<in> set vs" by (simp add: split)
    ultimately show "map_of ?marked u = None" using at [of v'] u by simp
  qed
  have v1: "v1 \<in> set vs" by (simp add: split)
  have first: "map_of ?marked (uuid v1) = Some (?g (entry_of r1))"
    using at [OF v1] m1 by simp
  have fd: "e_duration (?g (entry_of r1)) = PyFloat (r_duration r1)"
    unfolding unmarked_duration by (simp add: entry_of_def)
  have e1: "map_of (by_verification ?T) (uuid v1) =
      Some ((?g (entry_of r1))\<lparr>e_duration := (if r_duration r1 < 0.001 then PyStr [] else PyFloat (r_duration r1))\<rparr>)"
    unfolding bvT by (rule durations_first_run [OF d' absent first fd])
  have later: "\<forall>v r. v \<in> set vs2 \<and> map_of (tests v) t = Some r \<longrightarrow>
                 (\<exists>e. map_of (by_verification ?T) (uuid v) = Some e
                    \<and> e_duration e = later_field fmt (adjusted (r_duration r1)) (r_duration r))"
  proof (intro allI impI)
    fix v r assume h: "v \<in> set vs2 \<and> map_of (tests v) t = Some r"
    then have v: "v \<in> set vs" by (simp add: split)
    from h have u: "uuid v \<in> set (map uuid vs2)" by simp
    have m: "map_of ?marked (uuid v) = Some (?g (entry_of r))"
      using at [OF v] h by simp
    have fd': "e_duration (?g (entry_of r)) = PyFloat (r_duration r)"
      unfolding unmarked_duration by (simp add: entry_of_def)
    have "map_of (by_verification ?T) (uuid v) =
        Some ((?g (entry_of r))\<lparr>e_duration := later_field fmt (adjusted (r_duration r1)) (r_duration r)\<rparr>)"
      unfolding bvT by (rule durations_later_run [OF d' absent first fd u m fd'])
    then show "\<exists>e. map_of (by_verification ?T) (uuid v) = Some e
                    \<and> e_duration e = later_field fmt (adjusted (r_duration r1)) (r_duration r)"
      by (intro exI conjI) (assumption, rule duration_select_update)
  qed
  show ?thesis
    by (intro exI conjI) (rule T, rule e1, rule duration_select_update, rule later)
qed

text \<open>
  C1. For a run after the first run of a test, unless both adjusted durations are
  \<^verbatim>\<open>"0"\<close>, the duration field is this run's adjusted duration followed by the
  parenthesised difference, and the difference is this run's adjusted duration minus the
  first run's adjusted duration: a duration below 0.001 counts as 0 in it, not as its raw
  value. The difference has a \<^verbatim>\<open>+\<close> in front when it is not negative.
\<close>

theorem duration_diff_against_adjusted_first:
  assumes "wf_input vs" and "vs = vs1 @ v1 # vs2"
    and "\<forall>v'\<in>set vs1. t \<notin> fst ` set (tests v')"
    and "map_of (tests v1) t = Some r1"
    and "v \<in> set vs2" and "map_of (tests v) t = Some r"
    and "\<not> (r_duration r1 < 0.001 \<and> r_duration r < 0.001)"
  shows "\<exists>T e. map_of (c_tests (html_context strftime fmt vs)) t = Some T
           \<and> map_of (by_verification T) (uuid v) = Some e
           \<and> e_duration e =
               (let diff = py_float (adjusted (r_duration r)) - py_float (adjusted (r_duration r1))
                in PyStr (py_str fmt (adjusted (r_duration r)) @ '' (''
                          @ (if diff \<ge> 0 then ''+'' else []) @ fmt diff @ '')''))"
proof -
  from html_duration_fields [OF assms(1,2,3,4), of strftime fmt]
  obtain T where T: "map_of (c_tests (html_context strftime fmt vs)) t = Some T"
    and later: "\<forall>v r. v \<in> set vs2 \<and> map_of (tests v) t = Some r \<longrightarrow>
                 (\<exists>e. map_of (by_verification T) (uuid v) = Some e
                    \<and> e_duration e = later_field fmt (adjusted (r_duration r1)) (r_duration r))"
    by blast
  from later assms(5,6)
  obtain e where e: "map_of (by_verification T) (uuid v) = Some e"
    and d: "e_duration e = later_field fmt (adjusted (r_duration r1)) (r_duration r)"
    by blast
  from assms(7) have "\<not> (adjusted (r_duration r1) = PyStr ''0'' \<and> r_duration r < 0.001)"
    by (simp add: adjusted_def)
  with d have "e_duration e =
      (let diff = py_float (adjusted (r_duration r)) - py_float (adjusted (r_duration r1))
       in PyStr (py_str fmt (adjusted (r_duration r)) @ '' (''
                 @ (if diff \<ge> 0 then ''+'' else []) @ fmt diff @ '')''))"
    by (simp add: later_field_def Let_def)
  with T e show ?thesis by blast
qed

lemma duration_runs_wf: "wf_input (duration_runs d1 d2)"
  by (simp add: wf_input_def duration_runs_def example_run_def)

lemma float_str_two: "float_str 2 = ''2.0''"
  by code_simp

lemma float_str_minus_two: "float_str (- 2) = ''-2.0''"
  by code_simp

theorem duration_diff_against_adjusted_first_witness:
  "\<exists>T e. map_of (c_tests (html_context example_strftime float_str (duration_runs 0.0005 2))) ''t1'' = Some T
         \<and> map_of (by_verification T) ''u2'' = Some e
         \<and> e_duration e = PyStr ''2.0 (+2.0)''"
proof -
  let ?v1 = "example_run ''u1'' [(''t1'', example_result None 0.0005 None None)]"
  let ?v2 = "example_run ''u2'' [(''t1'', example_result None 2 None None)]"
  have s: "duration_runs 0.0005 2 = [] @ ?v1 # [?v2]" by (simp add: duration_runs_def)
  have n: "\<forall>v'\<in>set []. ''t1'' \<notin> fst ` set (tests v')" by simp
  have m1: "map_of (tests ?v1) ''t1'' = Some (example_result None 0.0005 None None)"
    by (simp add: example_run_def)
  have v: "?v2 \<in> set [?v2]" by simp
  have m: "map_of (tests ?v2) ''t1'' = Some (example_result None 2 None None)"
    by (simp add: example_run_def)
  have c: "\<not> (r_duration (example_result None 0.0005 None None) < 0.001
            \<and> r_duration (example_result None 2 None None) < 0.001)"
    by (simp add: example_result_def)
  have u: "uuid ?v2 = ''u2''" by (simp add: example_run_def)
  have val: "(let diff = py_float (adjusted (r_duration (example_result None 2 None None)))
                         - py_float (adjusted (r_duration (example_result None 0.0005 None None)))
              in PyStr (py_str float_str (adjusted (r_duration (example_result None 2 None None))) @ '' (''
                        @ (if diff \<ge> 0 then ''+'' else []) @ float_str diff @ '')''))
             = PyStr ''2.0 (+2.0)''"
    by (simp add: example_result_def adjusted_def digits_value_def float_str_two)
  from duration_diff_against_adjusted_first [OF duration_runs_wf s n m1 v m c,
      of example_strftime float_str]
  show ?thesis unfolding u val .
qed

theorem duration_diff_raw_first_counterexample:
  "map_option by_verification
     (map_of (c_tests (html_context example_strftime float_str (duration_runs 0.0005 2))) ''t1'')
     = Some [(''u1'', \<lparr>e_status = ''success'', e_duration = PyStr [], e_details = PyNone\<rparr>),
             (''u2'', \<lparr>e_status = ''success'', e_duration = PyStr ''2.0 (+2.0)'', e_details = PyNone\<rparr>)]
   \<and> float_str (2 - 0.0005) = ''1.9995''"
  by code_simp

text \<open>
  C7. A duration below 0.001 counts as the string \<^verbatim>\<open>"0"\<close>. In the first run of a test its
  field is blanked. In a later run the field is blanked, with no parenthesised
  difference, when the first run's duration is below 0.001 as well; when it is not, the
  field is \<^verbatim>\<open>0\<close> followed by the parenthesised difference, which is minus the first
  run's duration.
\<close>

theorem small_duration_zero_and_blank:
  assumes "wf_input vs" and "vs = vs1 @ v1 # vs2"
    and "\<forall>v'\<in>set vs1. t \<notin> fst ` set (tests v')"
    and "map_of (tests v1) t = Some r1"
  shows "\<exists>T e1. map_of (c_tests (html_context strftime fmt vs)) t = Some T
           \<and> map_of (by_verification T) (uuid v1) = Some e1
           \<and> (r_duration r1 < 0.001 \<longrightarrow> e_duration e1 = PyStr [])
           \<and> (\<forall>v r. v \<in> set vs2 \<and> map_of (tests v) t = Some r \<and> r_duration r < 0.001 \<longrightarrow>
                 (\<exists>e. map_of (by_verification T) (uuid v) = Some e
                    \<and> e_duration e =
                        (if r_duration r1 < 0.001 then PyStr []
                         else PyStr (''0 ('' @ fmt (- r_duration r1) @ '')''))))"
proof -
  from html_duration_fields [OF assms, of strftime fmt]
  obtain T e1 where T: "map_of (c_tests (html_context strftime fmt vs)) t = Some T"
    and e1: "map_of (by_verification T) (uuid v1) = Some e1"
    and d1: "e_duration e1 = (if r_duration r1 < 0.001 then PyStr [] else PyFloat (r_duration r1))"
    and later: "\<forall>v r. v \<in> set vs2 \<and> map_of (tests v) t = Some r \<longrightarrow>
                 (\<exists>e. map_of (by_verification T) (uuid v) = Some e
                    \<and> e_duration e = later_field fmt (adjusted (r_duration r1)) (r_duration r))"
    by blast
  have small: "later_field fmt (adjusted a) b =
      (if a < 0.001 then PyStr [] else PyStr (''0 ('' @ fmt (- a) @ '')''))" if "b < 0.001" for a b
    using that by (simp add: later_field_def adjusted_def digits_value_def)
  have "\<forall>v r. v \<in> set vs2 \<and> map_of (tests v) t = Some r \<and> r_duration r < 0.001 \<longrightarrow>
                 (\<exists>e. map_of (by_verification T) (uuid v) = Some e
                    \<and> e_duration e =
                        (if r_duration r1 < 0.001 then PyStr []
                         else PyStr (''0 ('' @ fmt (- r_duration r1) @ '')'')))"
  proof (intro allI impI)
    fix v r
    assume h: "v \<in> set vs2 \<and> map_of (tests v) t = Some r \<and> r_duration r < 0.001"
    with later obtain e where "map_of (by_verification T) (uuid v) = Some e"
      and "e_duration e = later_field fmt (adjusted (r_duration r1)) (r_duration r)" by blast
    with h small [of "r_duration r" "r_duration r1"]
    show "\<exists>e. map_of (by_verification T) (uuid v) = Some e
                    \<and> e_duration e =
                        (if r_duration r1 < 0.001 then PyStr []
                         else PyStr (''0 ('' @ fmt (- r_duration r1) @ '')''))"
      by simp
  qed
  moreover from d1 have "r_duration r1 < 0.001 \<longrightarrow> e_duration e1 = PyStr []" by simp
  ultimately show ?thesis using T e1 by blast
qed

theorem small_duration_zero_and_blank_witness:
  "(\<exists>T e1 e. map_of (c_tests (html_context example_strftime float_str (duration_runs 0.0005 0.0001))) ''t1'' = Some T
         \<and> map_of (by_verification T) ''u1'' = Some e1 \<and> e_duration e1 = PyStr []
         \<and> map_of (by_verification T) ''u2'' = Some e \<and> e_duration e = PyStr [])
   \<and> (\<exists>T e. map_of (c_tests (html_context example_strftime float_str (duration_runs 2 0.0005))) ''t1'' = Some T
         \<and> map_of (by_verification T) ''u2'' = Some e \<and> e_duration e = PyStr ''0 (-2.0)'')"
proof -
  have n: "\<forall>v'\<in>set []. ''t1'' \<notin> fst ` set (tests v')" by simp
  have A: "\<exists>T e1 e. map_of (c_tests (html_context example_strftime float_str (duration_runs d1 d2))) ''t1'' = Some T
         \<and> map_of (by_verification T) ''u1'' = Some e1 \<and> (d1 < 0.001 \<longrightarrow> e_duration e1 = PyStr [])
         \<and> map_of (by_verification T) ''u2'' = Some e
         \<and> e_duration e = (if d1 < 0.001 then PyStr [] else PyStr (''0 ('' @ float_str (- d1) @ '')''))"
    if d2: "d2 < 0.001" for d1 d2
  proof -
    let ?v1 = "example_run ''u1'' [(''t1'', example_result None d1 None None)]"
    let ?v2 = "example_run ''u2'' [(''t1'', example_result None d2 None None)]"
    have s: "duration_runs d1 d2 = [] @ ?v1 # [?v2]" by (simp add: duration_runs_def)
    have m1: "map_of (tests ?v1) ''t1'' = Some (example_result None d1 None None)"
      by (simp add: example_run_def)
    have m2: "?v2 \<in> set [?v2] \<and> map_of (tests ?v2) ''t1'' = Some (example_result None d2 None None)
        \<and> r_duration (example_result None d2 None None) < 0.001"
      using d2 by (simp add: example_run_def example_result_def)
    have u: "uuid ?v1 = ''u1''" "uuid ?v2 = ''u2''" by (simp_all add: example_run_def)
    have r: "r_duration (example_result None d1 None None) = d1" by (simp add: example_result_def)
    from small_duration_zero_and_blank [OF duration_runs_wf s n m1, of example_strftime float_str]
    obtain T e1 where T: "map_of (c_tests (html_context example_strftime float_str (duration_runs d1 d2))) ''t1'' = Some T"
      and e1: "map_of (by_verification T) ''u1'' = Some e1"
      and f1: "d1 < 0.001 \<longrightarrow> e_duration e1 = PyStr []"
      and later: "\<forall>v r. v \<in> set [?v2] \<and> map_of (tests v) ''t1'' = Some r \<and> r_duration r < 0.001 \<longrightarrow>
                 (\<exists>e. map_of (by_verification T) (uuid v) = Some e
                    \<and> e_duration e = (if d1 < 0.001 then PyStr []
                         else PyStr (''0 ('' @ float_str (- d1) @ '')'')))"
      unfolding u r by blast
    from later m2 obtain e where "map_of (by_verification T) (uuid ?v2) = Some e"
      and "e_duration e = (if d1 < 0.001 then PyStr [] else PyStr (''0 ('' @ float_str (- d1) @ '')''))"
      by blast
    with T e1 f1 show ?thesis unfolding u by blast
  qed
  have s1: "(0.0001::rat) < 0.001" and s2: "(0.0005::rat) < 0.001" by simp_all
  from A [OF s1, of "0.0005"] s2
  have first: "\<exists>T e1 e. map_of (c_tests (html_context example_strftime float_str (duration_runs 0.0005 0.0001))) ''t1'' = Some T
         \<and> map_of (by_verification T) ''u1'' = Some e1 \<and> e_duration e1 = PyStr []
         \<and> map_of (by_verification T) ''u2'' = Some e \<and> e_duration e = PyStr []"
    by auto
  have big: "\<not> (2::rat) < 0.001" by simp
  from A [OF s2, of 2] big
  have second: "\<exists>T e. map_of (c_tests (html_context example_strftime float_str (duration_runs 2 0.0005))) ''t1'' = Some T
         \<and> map_of (by_verification T) ''u2'' = Some e \<and> e_duration e = PyStr ''0 (-2.0)''"
    by (auto simp add: float_str_minus_two)
  from first second show ?thesis by (rule conjI)
qed

theorem small_duration_not_blank_counterexample:
  "map_option by_verification
     (map_of (c_tests (html_context example_strftime float_str (duration_runs 2 0.0005))) ''t1'')
     = Some [(''u1'', \<lparr>e_status = ''success'', e_duration = PyFloat 2, e_details = PyNone\<rparr>),
             (''u2'', \<lparr>e_status = ''success'', e_duration = PyStr ''0 (-2.0)'', e_details = PyNone\<rparr>)]"
  by code_simp

subsection \<open>The details of the HTML report\<close>

lemma html_context_c_tests:
  assumes "distinct (map uuid vs)"
  shows "c_tests (html_context strftime fmt vs) =
      map (\<lambda>x. (fst x, fst (html_test fmt (map uuid vs) (snd x))))
        (rep_tests (generate_raw strftime ''%Y-%m-%d %H:%M:%S'' vs))"
  using assms
  by (simp add: html_context_def Let_def split_beta html_tests_fst
      generate_raw_verifications_keys)

lemma entry_of_details_cases:
  "e_details (entry_of r) = NoKey \<or> (\<exists>d. e_details (entry_of r) = Text d \<and> d \<noteq> [])"
  by (simp add: entry_of_def details_of_def Let_def)

lemma runs_of_entries: "x \<in> set (runs_of vs t) \<Longrightarrow> \<exists>r. snd x = entry_of r"
  by (induction vs) (auto simp add: runs_of_def split: option.splits)

lemma runs_of_details:
  assumes "x \<in> set (runs_of vs t)"
  shows "e_details (snd x) = NoKey \<or> (\<exists>d. e_details (snd x) = Text d \<and> d \<noteq> [])"
proof -
  from runs_of_entries [OF assms] obtain r where "snd x = entry_of r" ..
  with entry_of_details_cases [of r] show ?thesis by simp
qed

lemma details_of_marked:
  "map (\<lambda>x. e_details (snd x)) (snd (fold (duration_step fmt) us ([], fst (mark_details bv False)))) =
   map (\<lambda>d. if d = NoKey then PyNone else d) (map (\<lambda>x. e_details (snd x)) bv)"
proof -
  have "map snd (map (\<lambda>x. (fst x, e_details (snd x)))
          (snd (fold (duration_step fmt) us ([], fst (mark_details bv False))))) =
        map snd (map (\<lambda>x. (fst x, e_details (snd x))) (fst (mark_details bv False)))"
    using fold_duration_details [of fmt us "([], fst (mark_details bv False))"] by simp
  then have "map (\<lambda>x. e_details (snd x))
          (snd (fold (duration_step fmt) us ([], fst (mark_details bv False)))) =
        map (\<lambda>x. e_details (snd x)) (fst (mark_details bv False))"
    by (simp add: comp_def)
  also have "\<dots> = map (\<lambda>d. if d = NoKey then PyNone else d) (map (\<lambda>x. e_details (snd x)) bv)"
    by (induction bv) (simp_all add: mark_details_fst)
  finally show ?thesis .
qed

lemma marked_details_text:
  "\<forall>d\<in>set ds. d = NoKey \<or> (\<exists>s. d = Text s \<and> s \<noteq> []) \<Longrightarrow>
   (\<exists>d\<in>set (map (\<lambda>d. if d = NoKey then PyNone else d) ds). \<exists>s. d = Text s \<and> s \<noteq> [])
     \<longleftrightarrow> (\<exists>d\<in>set ds. d \<noteq> NoKey)"
  by (induction ds) auto

lemma marked_details_none:
  "\<not> (\<exists>d\<in>set ds. d \<noteq> NoKey) \<Longrightarrow>
   \<forall>d\<in>set (map (\<lambda>d. if d = NoKey then PyNone else d) ds). d = PyNone"
  by (induction ds) auto

lemma html_test_details:
  assumes "\<forall>x\<in>set (by_verification T). e_details (snd x) = NoKey
             \<or> (\<exists>d. e_details (snd x) = Text d \<and> d \<noteq> [])"
  shows "has_details (fst (html_test fmt us T)) =
           Some (\<exists>x\<in>set (by_verification (fst (html_test fmt us T))).
                   \<exists>d. e_details (snd x) = Text d \<and> d \<noteq> [])
       \<and> (has_details (fst (html_test fmt us T)) = Some False \<longrightarrow>
            (\<forall>x\<in>set (by_verification (fst (html_test fmt us T))). e_details (snd x) = PyNone))"
proof -
  let ?bv = "by_verification T"
  let ?out = "by_verification (fst (html_test fmt us T))"
  let ?ds = "map (\<lambda>x. e_details (snd x)) ?bv"
  let ?marked = "map (\<lambda>d. if d = NoKey then PyNone else d) ?ds"
  have inv: "\<forall>d\<in>set ?ds. d = NoKey \<or> (\<exists>s. d = Text s \<and> s \<noteq> [])"
    using assms by simp
  have flag: "has_details (fst (html_test fmt us T)) = Some (\<exists>d\<in>set ?ds. d \<noteq> NoKey)"
    by (simp add: html_test_fst mark_details_snd)
  have out: "map (\<lambda>x. e_details (snd x)) ?out = ?marked"
    using details_of_marked [of fmt us ?bv] by (simp add: html_test_fst)
  have tx: "(\<exists>x\<in>set ?out. \<exists>d. e_details (snd x) = Text d \<and> d \<noteq> []) \<longleftrightarrow>
      (\<exists>d\<in>set ?marked. \<exists>s. d = Text s \<and> s \<noteq> [])"
    unfolding out [symmetric] by simp
  have none: "(\<forall>x\<in>set ?out. e_details (snd x) = PyNone) \<longleftrightarrow> (\<forall>d\<in>set ?marked. d = PyNone)"
    unfolding out [symmetric] by simp
  have first: "has_details (fst (html_test fmt us T)) =
      Some (\<exists>x\<in>set ?out. \<exists>d. e_details (snd x) = Text d \<and> d \<noteq> [])"
    unfolding flag tx marked_details_text [OF inv] ..
  have second: "has_details (fst (html_test fmt us T)) = Some False \<longrightarrow>
      (\<forall>x\<in>set ?out. e_details (snd x) = PyNone)"
  proof
    assume "has_details (fst (html_test fmt us T)) = Some False"
    with flag have "\<not> (\<exists>d\<in>set ?ds. d \<noteq> NoKey)" by simp
    from marked_details_none [OF this] show "\<forall>x\<in>set ?out. e_details (snd x) = PyNone"
      unfolding none .
  qed
  from first second show ?thesis by (rule conjI)
qed

text \<open>
  C8. In the report of the HTML formatter, \<^verbatim>\<open>has_details\<close> of a test is true exactly when
  one of its per-run entries has a non-empty details text; when it is false, every
  per-run entry of the test has the details marker \<^verbatim>\<open>None\<close>.
\<close>

theorem html_has_details:
  assumes "wf_input vs" and "(test_id, T) \<in> set (c_tests (html_context strftime fmt vs))"
  shows "has_details T =
           Some (\<exists>x\<in>set (by_verification T). \<exists>d. e_details (snd x) = Text d \<and> d \<noteq> [])
       \<and> (has_details T = Some False \<longrightarrow>
            (\<forall>x\<in>set (by_verification T). e_details (snd x) = PyNone))"
proof -
  let ?R = "generate_raw strftime ''%Y-%m-%d %H:%M:%S'' vs"
  from assms(1) have d: "distinct (map uuid vs)" by (simp add: wf_input_def)
  from assms(2) obtain Traw where raw: "(test_id, Traw) \<in> set (rep_tests ?R)"
    and T: "T = fst (html_test fmt (map uuid vs) Traw)"
    unfolding html_context_c_tests [OF d] by auto
  from raw have "map_of (rep_tests ?R) test_id = Some Traw"
    using generate_raw_tests_distinct [of strftime "''%Y-%m-%d %H:%M:%S''" vs] by simp
  with generate_raw_tests [OF assms(1), of strftime "''%Y-%m-%d %H:%M:%S''" test_id]
  obtain r0 where "Traw = new_test r0 (runs_of vs test_id)"
    by (cases "first_result vs test_id") simp_all
  then have "by_verification Traw = runs_of vs test_id" by (simp add: new_test_def)
  with runs_of_details [of _ vs test_id]
  have "\<forall>x\<in>set (by_verification Traw). e_details (snd x) = NoKey
          \<or> (\<exists>d. e_details (snd x) = Text d \<and> d \<noteq> [])"
    by simp
  from html_test_details [OF this, of fmt "map uuid vs"] show ?thesis unfolding T .
qed

theorem html_has_details_witness:
  "(\<exists>T. (''t1'', T) \<in> set (c_tests (html_context example_strftime float_str [flaky_run ''Trace'']))
        \<and> has_details T = Some True)
   \<and> (\<exists>T. (''t1'', T) \<in> set (c_tests (html_context example_strftime float_str (duration_runs 1 2)))
        \<and> has_details T = Some False
        \<and> map (\<lambda>x. e_details (snd x)) (by_verification T) = [PyNone, PyNone])"
proof -
  let ?A = "\<lparr>tags = [], name = ''test_foo'',
      by_verification = [(''u1'', \<lparr>e_status = ''success'', e_duration = PyFloat 1,
                                   e_details = Text ''flaky\<newline>\<newline>Trace''\<rparr>)],
      has_details = Some True\<rparr>"
  let ?B = "\<lparr>tags = [], name = ''test_foo'',
      by_verification = [(''u1'', \<lparr>e_status = ''success'', e_duration = PyFloat 1, e_details = PyNone\<rparr>),
                         (''u2'', \<lparr>e_status = ''success'', e_duration = PyStr ''2.0 (+1.0)'', e_details = PyNone\<rparr>)],
      has_details = Some False\<rparr>"
  have a: "c_tests (html_context example_strftime float_str [flaky_run ''Trace'']) = [(''t1'', ?A)]"
    by code_simp
  have b: "c_tests (html_context example_strftime float_str (duration_runs 1 2)) = [(''t1'', ?B)]"
    by code_simp
  have ina: "(''t1'', ?A) \<in> set (c_tests (html_context example_strftime float_str [flaky_run ''Trace'']))"
    unfolding a by simp
  have inb: "(''t1'', ?B) \<in> set (c_tests (html_context example_strftime float_str (duration_runs 1 2)))"
    unfolding b by simp
  from html_has_details [OF flaky_wf ina]
  have ha: "has_details ?A = Some True" by simp
  from html_has_details [OF duration_runs_wf inb]
  have hb: "has_details ?B = Some False" by simp
  have mb: "map (\<lambda>x. e_details (snd x)) (by_verification ?B) = [PyNone, PyNone]" by simp
  have first: "\<exists>T. (''t1'', T) \<in> set (c_tests (html_context example_strftime float_str [flaky_run ''Trace'']))
        \<and> has_details T = Some True"
  proof (intro exI [of _ ?A] conjI)
    show "(''t1'', ?A) \<in> set (c_tests (html_context example_strftime float_str [flaky_run ''Trace'']))"
      by (rule ina)
    show "has_details ?A = Some True" by (rule ha)
  qed
  have second: "\<exists>T. (''t1'', T) \<in> set (c_tests (html_context example_strftime float_str (duration_runs 1 2)))
        \<and> has_details T = Some False
        \<and> map (\<lambda>x. e_details (snd x)) (by_verification T) = [PyNone, PyNone]"
  proof (intro exI [of _ ?B] conjI)
    show "(''t1'', ?B) \<in> set (c_tests (html_context example_strftime float_str (duration_runs 1 2)))"
      by (rule inb)
    show "has_details ?B = Some False" by (rule hb)
    show "map (\<lambda>x. e_details (snd x)) (by_verification ?B) = [PyNone, PyNone]" by (rule mb)
  qed
  from first second show ?thesis by (rule conjI)
qed

section \<open>Properties of the reporters on the store\<close>

subsection \<open>Reading after an allocation and after a write\<close>

lemma fst_alloc [simp]: "fst (alloc c h) = free h"
  by (simp add: alloc_def)

lemma free_alloc [simp]: "free (snd (alloc c h)) = Suc (free h)"
  by (simp add: alloc_def)


lemma test_at_alloc [simp]: "test_at (snd (alloc (TestCell t) h)) (free h) = t"
  by (simp add: alloc_def test_at_def)

lemma entry_at_alloc [simp]: "entry_at (snd (alloc (EntryCell e) h)) (free h) = e"
  by (simp add: alloc_def entry_at_def)

lemma free_write_test [simp]: "free (write_test a f h) = free h"
  by (simp add: write_test_def)

lemma free_write_entry [simp]: "free (write_entry a f h) = free h"
  by (simp add: write_entry_def)



lemma test_at_write_test [simp]: "test_at (write_test a f h) a = f (test_at h a)"
  by (simp add: write_test_def test_at_def)

lemma entry_at_write_entry [simp]: "entry_at (write_entry a f h) a = f (entry_at h a)"
  by (simp add: write_entry_def entry_at_def)




subsection \<open>Association lists of references\<close>

















subsection \<open>One test of one run\<close>





subsection \<open>The loops of the aggregator on the store\<close>







subsection \<open>The formatter's loops on the store\<close>






subsection \<open>The formatter's loop over the tests on the store\<close>








subsection \<open>Two calls\<close>










end
